theory Spec2Isabelle
  imports Complex_Main "HOL-Library.Monad_Syntax"
begin

section \<open>ClassicRotate: the triangle wave and the moving-head position\<close>

text \<open>
  Source: class \<open>ClassicRotate\<close>, the second document of
  \<^verbatim>\<open>src/modules/lights/effects/movement/index.ts\<close>. The code is read twice. First
  with JavaScript numbers as real numbers and exact operations: this is the formula
  the code evaluates, which is compared with the formula of the specification. Then,
  further down, with binary64 numbers and rounded operations, as the program runs.

  \<^verbatim>\<open>
  private triangleFunction(t: number, p = 1) {
    const factor = Math.floor((2 * t) / p + 0.5);
    return (4 / p) * (t - (p / 2) * factor) * (-1) ** factor;
  }
  \<close>
\<close>

definition triangleFunction :: "real \<Rightarrow> real \<Rightarrow> real" where
  "triangleFunction t p =
     (let factor = \<lfloor>(2 * t) / p + 0.5\<rfloor>
      in (4 / p) * (t - (p / 2) * of_int factor) * (- 1) powi factor)"

text \<open>
  \<^verbatim>\<open>
  protected setPosition(movingHead, progression: number, offset: number = 0) {
    const pan = this.triangleFunction(progression + offset) * 128 + 128;
    const tilt = this.triangleFunction(progression * 4 + offset) * 128 + 128;
    movingHead.setPosition(pan, tilt);
  }
  \<close>
  Both calls leave \<open>p\<close> at its default 1. The result is the pair handed to
  \<open>movingHead.setPosition\<close>.
\<close>

definition setPosition :: "real \<Rightarrow> real \<Rightarrow> real \<times> real" where
  "setPosition progression offset =
     (let pan = triangleFunction (progression + offset) 1 * 128 + 128;
          tilt = triangleFunction (progression * 4 + offset) 1 * 128 + 128
      in (pan, tilt))"



subsection \<open>The same code on binary64 numbers\<close>

text \<open>
  A JavaScript number is an IEEE 754 binary64 value. A finite one is read as the real
  number it denotes (the two zeros as 0), and \<open>None\<close> stands for the values that are
  not finite (\<open>Infinity\<close>, \<open>-Infinity\<close>, \<open>NaN\<close>).

  \<open>rne\<close> rounds a real number to a nearest integer, a tie to the even one.
\<close>

definition rne :: "real \<Rightarrow> int" where
  "rne r = (let f = \<lfloor>r\<rfloor>; d = r - of_int f
            in if d < 1 / 2 then f else if 1 / 2 < d then f + 1
               else if even f then f else f + 1)"

text \<open>
  The binade of \<open>x \<noteq> 0\<close> is the \<open>k\<close> with \<open>2^k \<le> |x| < 2^(k+1)\<close>.
\<close>

definition binade :: "real \<Rightarrow> int" where
  "binade x = \<lfloor>log 2 \<bar>x\<bar>\<rfloor>"

text \<open>
  \<open>round64 x\<close> is the binary64 value of the exact result \<open>x\<close> of an operation, rounded
  to nearest, ties to even: binary64 numbers have 53 significant bits, so around \<open>x\<close>
  they are the multiples of \<open>2^(binade x - 52)\<close>, and of \<open>2^-1074\<close> in the subnormal
  range; a result that rounds to \<open>2^1024\<close> or beyond is infinite.
\<close>

definition round64 :: "real \<Rightarrow> real option" where
  "round64 x =
     (if x = 0 then Some 0
      else let e = max (binade x - 52) (- 1074);
               y = of_int (rne (x / 2 powi e)) * 2 powi e
           in if \<bar>y\<bar> < 2 powi 1024 then Some y else None)"

text \<open>
  The operators \<^verbatim>\<open>*\<close>, \<^verbatim>\<open>+\<close>, \<^verbatim>\<open>-\<close> and \<^verbatim>\<open>/\<close> on finite operands. A division by zero
  gives \<open>Infinity\<close>, \<open>-Infinity\<close> or \<open>NaN\<close>.
\<close>

definition mul64 :: "real \<Rightarrow> real \<Rightarrow> real option" where
  "mul64 a b = round64 (a * b)"

definition add64 :: "real \<Rightarrow> real \<Rightarrow> real option" where
  "add64 a b = round64 (a + b)"

definition sub64 :: "real \<Rightarrow> real \<Rightarrow> real option" where
  "sub64 a b = round64 (a - b)"

definition div64 :: "real \<Rightarrow> real \<Rightarrow> real option" where
  "div64 a b = (if b = 0 then None else round64 (a / b))"

text \<open>
  \<open>triangleFunction\<close> and \<open>setPosition\<close> again, every operation rounded, in the order
  in which JavaScript evaluates the expressions:
  \<^verbatim>\<open>((4 / p) * (t - (p / 2) * factor)) * ((-1) ** factor)\<close>. \<^verbatim>\<open>Math.floor\<close> of a finite
  number is exact, and so is \<^verbatim>\<open>(-1) ** factor\<close> for the finite integer \<open>factor\<close>. An
  operation on a value that is not finite gives a value that is not finite (the code
  never divides by one, and \<^verbatim>\<open>(-1) ** Infinity\<close> is \<open>NaN\<close>), so the result is \<open>None\<close>
  as soon as one step is.
\<close>

definition triangleFunction64 :: "real \<Rightarrow> real \<Rightarrow> real option" where
  "triangleFunction64 t p =
     do {
       a \<leftarrow> mul64 2 t;
       b \<leftarrow> div64 a p;
       c \<leftarrow> add64 b (1 / 2);
       let factor = \<lfloor>c\<rfloor>;
       d \<leftarrow> div64 4 p;
       h \<leftarrow> div64 p 2;
       m \<leftarrow> mul64 h (of_int factor);
       s \<leftarrow> sub64 t m;
       q \<leftarrow> mul64 d s;
       mul64 q ((- 1) powi factor)
     }"

text \<open>
  The pair handed to \<open>movingHead.setPosition\<close>: pan and tilt, each a finite number or
  not.
\<close>

definition setPosition64 :: "real \<Rightarrow> real \<Rightarrow> real option \<times> real option" where
  "setPosition64 progression offset =
     (let pan = do {
            a \<leftarrow> add64 progression offset;
            f \<leftarrow> triangleFunction64 a 1;
            w \<leftarrow> mul64 f 128;
            add64 w 128 };
          tilt = do {
            a \<leftarrow> mul64 progression 4;
            b \<leftarrow> add64 a offset;
            f \<leftarrow> triangleFunction64 b 1;
            w \<leftarrow> mul64 f 128;
            add64 w 128 }
      in (pan, tilt))"

section \<open>Handler manager\<close>

text \<open>
  Source: class \<open>HandlerManager\<close> (\<^verbatim>\<open>unnamed/part_003\<close>).
\<close>

subsection \<open>Entities, handlers, the socket server and the database\<close>

text \<open>
  The entity classes that key the handler map (\<open>typeof SubscribeEntity\<close>): the
  constructor registers \<open>Audio\<close>, \<open>LightsGroup\<close> and \<open>Screen\<close>.
\<close>

datatype category = Audio | LightsGroup | Screen

definition class_name :: "category \<Rightarrow> string" where
  "class_name c =
     (case c of Audio \<Rightarrow> ''Audio'' | LightsGroup \<Rightarrow> ''LightsGroup'' | Screen \<Rightarrow> ''Screen'')"

text \<open>
  Modelled from the spec: the class \<open>SubscribeEntity\<close> is not among the sources. Its
  fields are those of the specification's DeviceEntity ("identity (id, name), category,
  current handler name (persisted), current live-connection identifier (transient,
  nullable)"), under the names the sources use: \<open>kind\<close> is \<open>entity.constructor\<close>,
  \<open>ident\<close> is \<open>id\<close>, then \<open>name\<close>, \<open>currentHandler\<close> and \<open>socketId\<close>.
\<close>

record SubscribeEntity =
  kind :: category
  ident :: nat
  name :: string
  currentHandler :: string
  socketId :: "string option"

text \<open>
  Modelled from the spec: the class \<open>BaseHandler\<close> is not among the sources. A handler
  is its class name (\<open>handler.constructor.name\<close>) and the entities registered with it
  (\<open>handler.entities\<close>, the specification's "set of currently-registered DeviceEntity
  references"), in registration order.
\<close>

record BaseHandler =
  constructor_name :: string
  entities :: "SubscribeEntity list"

definition same_entity :: "SubscribeEntity \<Rightarrow> SubscribeEntity \<Rightarrow> bool" where
  "same_entity x e = (ident x = ident e)"

definition registered :: "BaseHandler \<Rightarrow> SubscribeEntity \<Rightarrow> bool" where
  "registered h e = (\<exists>x \<in> set (entities h). same_entity x e)"

text \<open>
  Modelled from the spec: \<open>BaseHandler.registerEntity\<close> and \<open>BaseHandler.removeEntity\<close>
  are not among the sources. The specification says a handler "owns a set of
  currently-registered DeviceEntity references (membership only)" and that deregistering
  is "idempotent if absent". An entity is identified by its id within the handler's
  category: registering adds it unless it is a member already, removing drops every
  member with that id.
\<close>

definition registerEntity :: "BaseHandler \<Rightarrow> SubscribeEntity \<Rightarrow> BaseHandler" where
  "registerEntity h e =
     (if registered h e then h else h\<lparr>entities := entities h @ [e]\<rparr>)"

definition removeEntity :: "BaseHandler \<Rightarrow> SubscribeEntity \<Rightarrow> BaseHandler" where
  "removeEntity h e = h\<lparr>entities := filter (\<lambda>x. \<not> same_entity x e) (entities h)\<rparr>"

text \<open>
  The socket.io server, as far as the manager uses it: \<open>io.sockets.sockets\<close> is the
  table of live sockets by id, and \<open>socket?.emit(event, arg)\<close> sends only when the
  lookup found a socket. \<open>emitted\<close> records what was sent, in order.
\<close>

record message =
  to_socket :: string
  event :: string
  payload :: "string option"

record Server =
  sockets :: "string set"
  emitted :: "message list"

definition socket_get :: "Server \<Rightarrow> string \<Rightarrow> string option" where
  "socket_get srv k = (if k \<in> sockets srv then Some k else None)"

definition emit :: "string option \<Rightarrow> string \<Rightarrow> string option \<Rightarrow> Server \<Rightarrow> Server" where
  "emit socket ev arg srv =
     (case socket of
        None \<Rightarrow> srv
      | Some k \<Rightarrow> srv\<lparr>emitted := emitted srv @ [\<lparr>to_socket = k, event = ev, payload = arg\<rparr>]\<rparr>)"

text \<open>
  The database holds the entity rows of all three tables; a row's table is its \<open>kind\<close>.
  \<open>dataSource.manager.find(entity)\<close> returns the rows of one table, and
  \<open>entity.save()\<close> writes the in-memory entity over the row with its primary key
  (inserting it when there is none). TypeORM's \<open>save\<close> skips the properties that are
  \<open>undefined\<close>: when the entity's \<open>socketId\<close> is \<open>undefined\<close> (\<open>None\<close>), the row keeps
  the \<open>socketId\<close> it has. The other properties always have a value.
\<close>

type_synonym table = "SubscribeEntity list"

definition find_all :: "table \<Rightarrow> category \<Rightarrow> SubscribeEntity list" where
  "find_all db c = filter (\<lambda>r. kind r = c) db"

definition same_row :: "SubscribeEntity \<Rightarrow> SubscribeEntity \<Rightarrow> bool" where
  "same_row r e = (kind r = kind e \<and> ident r = ident e)"

definition stored_over :: "SubscribeEntity \<Rightarrow> SubscribeEntity \<Rightarrow> SubscribeEntity" where
  "stored_over r e = (case socketId e of None \<Rightarrow> e\<lparr>socketId := socketId r\<rparr> | Some s \<Rightarrow> e)"

definition save :: "table \<Rightarrow> SubscribeEntity \<Rightarrow> table" where
  "save db e =
     (if \<exists>r \<in> set db. same_row r e
      then map (\<lambda>r. if same_row r e then stored_over r e else r) db
      else db @ [e])"

definition lookup_row :: "table \<Rightarrow> category \<Rightarrow> nat \<Rightarrow> SubscribeEntity option" where
  "lookup_row db c i = find (\<lambda>r. kind r = c \<and> ident r = i) db"

definition pk_unique :: "table \<Rightarrow> bool" where
  "pk_unique db = distinct (map (\<lambda>r. (kind r, ident r)) db)"

subsection \<open>The manager\<close>

text \<open>
  \<open>_handlers\<close> is a JavaScript \<open>Map\<close>: an association list in insertion order.
  \<open>map_set\<close> is \<open>Map.prototype.set\<close>, \<open>map_of\<close> is \<open>Map.prototype.get\<close>.
\<close>

type_synonym registry = "(category \<times> BaseHandler list) list"

record HandlerManager =
  initialized :: bool
  handlers :: registry
  io :: Server

datatype error = Error string

definition map_set :: "('k \<times> 'v) list \<Rightarrow> 'k \<Rightarrow> 'v \<Rightarrow> ('k \<times> 'v) list" where
  "map_set m k v =
     (if k \<in> fst ` set m then map (\<lambda>(k', v'). if k' = k then (k', v) else (k', v')) m
      else m @ [(k, v)])"

definition new_handler :: "string \<Rightarrow> BaseHandler" where
  "new_handler n = \<lparr>constructor_name = n, entities = []\<rparr>"

text \<open>
  The constructor (\<open>initialized\<close> and \<open>_handlers\<close> start as the field initialisers
  give them):
  \<^verbatim>\<open>
  private constructor(private io: Server) {
    const lightsHandlers: BaseLightsHandler[] = [
      new RandomEffectsHandler(), new SetEffectsHandler(), new DevelopEffectsHandler(),
    ];
    this._handlers.set(Audio, [new SimpleAudioHandler(io.of('/audio'))]);
    this._handlers.set(LightsGroup, lightsHandlers);
    this._handlers.set(Screen, []);
  }
  \<close>
\<close>

definition HandlerManager_new :: "Server \<Rightarrow> HandlerManager" where
  "HandlerManager_new server =
     (let lightsHandlers = [new_handler ''RandomEffectsHandler'',
                            new_handler ''SetEffectsHandler'',
                            new_handler ''DevelopEffectsHandler''];
          m1 = map_set [] Audio [new_handler ''SimpleAudioHandler''];
          m2 = map_set m1 LightsGroup lightsHandlers;
          m3 = map_set m2 Screen []
      in \<lparr>initialized = False, handlers = m3, io = server\<rparr>)"

text \<open>
  \<^verbatim>\<open>
  public getHandlers(entity?: typeof SubscribeEntity) {
    if (!entity) return Array.from(this._handlers.values()).flat();
    return this._handlers.get(entity) || [];
  }
  \<close>
\<close>

definition getHandlers :: "HandlerManager \<Rightarrow> category option \<Rightarrow> BaseHandler list" where
  "getHandlers hm entity =
     (case entity of
        None \<Rightarrow> concat (map snd (handlers hm))
      | Some c \<Rightarrow> (case map_of (handlers hm) c of None \<Rightarrow> [] | Some hs \<Rightarrow> hs))"

text \<open>
  The handlers are objects that the source mutates in place; here the changed handler
  list is written back under its key (nothing changes when the key is absent).
\<close>

definition put_handlers :: "registry \<Rightarrow> category \<Rightarrow> BaseHandler list \<Rightarrow> registry" where
  "put_handlers reg c hs = map (\<lambda>(k, v). if k = c then (k, hs) else (k, v)) reg"

text \<open>
  \<^verbatim>\<open>
  public registerHandler<T extends SubscribeEntity>(entity: T, newHandler: string | '') {
    const handlers = this.getHandlers(entity.constructor as typeof SubscribeEntity);
    handlers.forEach((handler) => { handler.removeEntity(entity); });
    const socket = this.io.sockets.sockets.get(entity.socketId || '');
    if (newHandler !== '') {
      handlers.forEach((handler) => {
        if (handler.constructor.name === newHandler) {
          handler.registerEntity(entity);
          socket?.emit('handler_set', newHandler);
        }
      });
    } else {
      socket?.emit('handler_remove');
    }
  }
  \<close>
  \<open>register_matching\<close> is the second \<open>forEach\<close>.
\<close>

fun register_matching :: "string \<Rightarrow> string option \<Rightarrow> SubscribeEntity \<Rightarrow> BaseHandler list
    \<Rightarrow> Server \<Rightarrow> BaseHandler list \<times> Server" where
  "register_matching newHandler socket entity [] srv = ([], srv)"
| "register_matching newHandler socket entity (handler # hs) srv =
     (if constructor_name handler = newHandler
      then (let handler' = registerEntity handler entity;
                srv' = emit socket ''handler_set'' (Some newHandler) srv;
                (hs', srv'') = register_matching newHandler socket entity hs srv'
            in (handler' # hs', srv''))
      else (let (hs', srv') = register_matching newHandler socket entity hs srv
            in (handler # hs', srv')))"

definition registerHandler :: "HandlerManager \<Rightarrow> SubscribeEntity \<Rightarrow> string \<Rightarrow> HandlerManager" where
  "registerHandler hm entity newHandler =
     (let hs = getHandlers hm (Some (kind entity));
          hs1 = map (\<lambda>handler. removeEntity handler entity) hs;
          socket = socket_get (io hm) (case socketId entity of None \<Rightarrow> '''' | Some k \<Rightarrow> k)
      in if newHandler \<noteq> ''''
         then (let (hs2, srv) = register_matching newHandler socket entity hs1 (io hm)
               in hm\<lparr>handlers := put_handlers (handlers hm) (kind entity) hs2, io := srv\<rparr>)
         else hm\<lparr>handlers := put_handlers (handlers hm) (kind entity) hs1,
                 io := emit socket ''handler_remove'' None (io hm)\<rparr>)"

text \<open>
  \<^verbatim>\<open>
  protected restoreHandlers(entity: T, handlers: U[]) {
    handlers.forEach((handler) => {
      if (handler.constructor.name === entity.currentHandler) handler.registerEntity(entity);
    });
  }
  \<close>
\<close>

definition restoreHandlers :: "SubscribeEntity \<Rightarrow> BaseHandler list \<Rightarrow> BaseHandler list" where
  "restoreHandlers entity hs =
     map (\<lambda>handler. if constructor_name handler = currentHandler entity
                     then registerEntity handler entity else handler) hs"

text \<open>
  The connection emitter: the listeners registered with \<open>on\<close>, in order. The only
  listeners are the two closures \<open>init\<close> creates.
\<close>

record User =
  user_name :: string

datatype listener = OnConnect | OnDisconnect

type_synonym SocketConnectionEmitter = "(string \<times> listener) list"

definition on :: "SocketConnectionEmitter \<Rightarrow> string \<Rightarrow> listener \<Rightarrow> SocketConnectionEmitter" where
  "on em ev l = em @ [(ev, l)]"

text \<open>
  \<^verbatim>\<open>
  public async init(socketConnectionEmitter: SocketConnectionEmitter) {
    if (this.initialized) throw new Error('HandlerManager already initialized.');
    await Promise.all(Array.from(this._handlers.keys()).map(async (entity) => {
      const entities = await dataSource.manager.find(entity);
      entities.forEach((instance) => {
        const handlers = this._handlers.get(instance.constructor as typeof SubscribeEntity);
        if (handlers === undefined) throw new Error(`Unknown entity: ${instance.constructor.name}`);
        this.restoreHandlers(instance, handlers);
      });
    }));
    socketConnectionEmitter.on('connect', ...);
    socketConnectionEmitter.on('disconnect', ...);
  }
  \<close>
  \<open>restore_instances\<close> is the inner \<open>forEach\<close>, \<open>restore_keys\<close> the map over the keys.
  The callbacks of \<open>Promise.all\<close> each touch the handlers of their own key only, so
  they are run one after the other in key order. The method has no assignment to
  \<open>this.initialized\<close>, so the result leaves the field as it was.
\<close>

fun restore_instances :: "SubscribeEntity list \<Rightarrow> registry \<Rightarrow> error + registry" where
  "restore_instances [] reg = Inr reg"
| "restore_instances (instance # rest) reg =
     (case map_of reg (kind instance) of
        None \<Rightarrow> Inl (Error (''Unknown entity: '' @ class_name (kind instance)))
      | Some hs \<Rightarrow>
          restore_instances rest (put_handlers reg (kind instance) (restoreHandlers instance hs)))"

fun restore_keys :: "category list \<Rightarrow> table \<Rightarrow> registry \<Rightarrow> error + registry" where
  "restore_keys [] db reg = Inr reg"
| "restore_keys (entity # rest) db reg =
     (case restore_instances (find_all db entity) reg of
        Inl e \<Rightarrow> Inl e
      | Inr reg' \<Rightarrow> restore_keys rest db reg')"

definition init :: "HandlerManager \<Rightarrow> table \<Rightarrow> SocketConnectionEmitter
    \<Rightarrow> error + (HandlerManager \<times> SocketConnectionEmitter)" where
  "init hm db socketConnectionEmitter =
     (if initialized hm then Inl (Error ''HandlerManager already initialized.'')
      else (case restore_keys (map fst (handlers hm)) db (handlers hm) of
              Inl e \<Rightarrow> Inl e
            | Inr reg \<Rightarrow>
                Inr (hm\<lparr>handlers := reg\<rparr>,
                     on (on socketConnectionEmitter ''connect'' OnConnect)
                        ''disconnect'' OnDisconnect)))"

text \<open>
  The two listeners walk \<open>this._handlers\<close>, every handler of every key and every
  entity of every handler, and differ in the body only:
  \<^verbatim>\<open>
  this._handlers.forEach((handlers) => {
    handlers.forEach((handler) => handler.entities.forEach((entity) => {
      if (entity.name === user.name) {
        this.io.sockets.sockets.get(socketId)?.emit('handler_set', handler.constructor.name);
        entity.socketId = socketId;        // 'handler_remove' and undefined on disconnect
        entity.save();
      }
    }));
  });
  \<close>
  The walk threads the server and the database through the bodies and returns the
  entities as the bodies left them.
\<close>

fun forEach_entity :: "(SubscribeEntity \<Rightarrow> 'w \<Rightarrow> SubscribeEntity \<times> 'w)
    \<Rightarrow> SubscribeEntity list \<Rightarrow> 'w \<Rightarrow> SubscribeEntity list \<times> 'w" where
  "forEach_entity body [] w = ([], w)"
| "forEach_entity body (entity # es) w =
     (let (entity', w1) = body entity w;
          (es', w2) = forEach_entity body es w1
      in (entity' # es', w2))"

fun forEach_handler :: "(string \<Rightarrow> SubscribeEntity \<Rightarrow> 'w \<Rightarrow> SubscribeEntity \<times> 'w)
    \<Rightarrow> BaseHandler list \<Rightarrow> 'w \<Rightarrow> BaseHandler list \<times> 'w" where
  "forEach_handler body [] w = ([], w)"
| "forEach_handler body (handler # hs) w =
     (let (es', w1) = forEach_entity (body (constructor_name handler)) (entities handler) w;
          (hs', w2) = forEach_handler body hs w1
      in (handler\<lparr>entities := es'\<rparr> # hs', w2))"

fun forEach_handlers :: "(string \<Rightarrow> SubscribeEntity \<Rightarrow> 'w \<Rightarrow> SubscribeEntity \<times> 'w)
    \<Rightarrow> registry \<Rightarrow> 'w \<Rightarrow> registry \<times> 'w" where
  "forEach_handlers body [] w = ([], w)"
| "forEach_handlers body ((c, hs) # rest) w =
     (let (hs', w1) = forEach_handler body hs w;
          (rest', w2) = forEach_handlers body rest w1
      in ((c, hs') # rest', w2))"

definition connect_body :: "User \<Rightarrow> string \<Rightarrow> string \<Rightarrow> SubscribeEntity \<Rightarrow> Server \<times> table
    \<Rightarrow> SubscribeEntity \<times> (Server \<times> table)" where
  "connect_body user sid handler_name entity w =
     (case w of (srv, db) \<Rightarrow>
        if name entity = user_name user
        then (let srv' = emit (socket_get srv sid) ''handler_set'' (Some handler_name) srv;
                  entity' = entity\<lparr>socketId := Some sid\<rparr>
              in (entity', (srv', save db entity')))
        else (entity, (srv, db)))"

definition disconnect_body :: "User \<Rightarrow> string \<Rightarrow> string \<Rightarrow> SubscribeEntity \<Rightarrow> Server \<times> table
    \<Rightarrow> SubscribeEntity \<times> (Server \<times> table)" where
  "disconnect_body user sid handler_name entity w =
     (case w of (srv, db) \<Rightarrow>
        if name entity = user_name user
        then (let srv' = emit (socket_get srv sid) ''handler_remove'' (Some handler_name) srv;
                  entity' = entity\<lparr>socketId := None\<rparr>
              in (entity', (srv', save db entity')))
        else (entity, (srv, db)))"

definition run_body ::
  "(string \<Rightarrow> SubscribeEntity \<Rightarrow> Server \<times> table \<Rightarrow> SubscribeEntity \<times> (Server \<times> table))
    \<Rightarrow> HandlerManager \<times> table \<Rightarrow> HandlerManager \<times> table" where
  "run_body body w =
     (case w of (hm, db) \<Rightarrow>
        (case forEach_handlers body (handlers hm) (io hm, db) of
           (reg', (srv', db')) \<Rightarrow> (hm\<lparr>handlers := reg', io := srv'\<rparr>, db')))"

fun run_listener :: "listener \<Rightarrow> User \<Rightarrow> string \<Rightarrow> HandlerManager \<times> table
    \<Rightarrow> HandlerManager \<times> table" where
  "run_listener OnConnect user sid w = run_body (connect_body user sid) w"
| "run_listener OnDisconnect user sid w = run_body (disconnect_body user sid) w"

text \<open>Emitting an event runs every listener registered for it, in registration order.\<close>

definition emitter_emit :: "SocketConnectionEmitter \<Rightarrow> string \<Rightarrow> User \<Rightarrow> string
    \<Rightarrow> HandlerManager \<times> table \<Rightarrow> HandlerManager \<times> table" where
  "emitter_emit em ev user sid w =
     fold (\<lambda>(e, l) w'. if e = ev then run_listener l user sid w' else w') em w"

subsection \<open>Invariants of the handler map\<close>

text \<open>The handlers of a list that hold an entity.\<close>

definition holders :: "BaseHandler list \<Rightarrow> SubscribeEntity \<Rightarrow> BaseHandler list" where
  "holders hs e = filter (\<lambda>h. registered h e) hs"

text \<open>
  The keys of a \<open>Map\<close> are distinct, and the handlers of one category are instances of
  different classes, so their names differ.
\<close>

definition registry_ok :: "registry \<Rightarrow> bool" where
  "registry_ok reg =
     (distinct (map fst reg) \<and> (\<forall>(c, hs) \<in> set reg. distinct (map constructor_name hs)))"

text \<open>Every registered entity is held by at most one handler of its category.\<close>

definition at_most_one :: "registry \<Rightarrow> bool" where
  "at_most_one reg =
     (\<forall>(c, hs) \<in> set reg. \<forall>h \<in> set hs. \<forall>e \<in> set (entities h). length (holders hs e) \<le> 1)"

text \<open>
  A handler that holds a persisted entity is the one the entity's row names as its
  current handler.
\<close>

definition bindings_agree :: "registry \<Rightarrow> table \<Rightarrow> bool" where
  "bindings_agree reg db =
     (\<forall>r \<in> set db. \<forall>(c, hs) \<in> set reg. c = kind r \<longrightarrow>
        (\<forall>h \<in> set hs. registered h r \<longrightarrow> constructor_name h = currentHandler r))"

section \<open>Server settings store\<close>

text \<open>
  Source: class \<open>ServerSettingsStore\<close> (\<^verbatim>\<open>unnamed/part_002\<close>). A setting is a key with a value; \<open>repo\<close> is the table behind
  the repository, keyed by \<open>key\<close>. \<open>SettingsDefaults\<close> is not among the sources: its
  entries are a parameter, in the order \<open>Object.entries\<close> gives them.
\<close>

record ServerSetting =
  key :: string
  val :: string

record ServerSettingsStore =
  store_initialized :: bool
  repo :: "ServerSetting list"
  settings :: "(string \<times> string) list option"

definition repo_save :: "ServerSetting list \<Rightarrow> ServerSetting \<Rightarrow> ServerSetting list" where
  "repo_save rows s =
     (if \<exists>r \<in> set rows. key r = key s
      then map (\<lambda>r. if key r = key s then s else r) rows
      else rows @ [s])"

text \<open>
  \<^verbatim>\<open>
  public async initialize() {
    if (this.initialized) throw new Error('ServerSettingsStore already initialized!');
    const settings = await this.repo.find();
    const promises: Promise<ServerSetting>[] = [];
    Object.entries(SettingsDefaults).forEach((entry) => {
      const key = entry[0]; const value = entry[1];
      const setting = settings.find((s) => s.key === key);
      if (!setting) { promises.push(this.repo.save({ key, value })); }
    });
    settings.push(...(await Promise.all(promises)));
    const map = new Map();
    Object.keys(SettingsDefaults).forEach((key) => {
      const setting = settings.find((s) => s.key === key);
      if (!setting) throw new Error(`Setting "${key}" missing during initialization`);
      map.set(setting.key, setting.value);
    });
    this.settings = Object.fromEntries(map);
    this.initialized = true;
  }
  \<close>
  \<open>missing_defaults\<close> is what the first loop saves, \<open>collect_settings\<close> the second loop.
\<close>

definition missing_defaults :: "(string \<times> string) list \<Rightarrow> ServerSetting list \<Rightarrow> ServerSetting list" where
  "missing_defaults defaults found =
     map (\<lambda>(k, v). \<lparr>key = k, val = v\<rparr>)
       (filter (\<lambda>(k, v). find (\<lambda>s. key s = k) found = None) defaults)"

fun collect_settings :: "string list \<Rightarrow> ServerSetting list \<Rightarrow> (string \<times> string) list
    \<Rightarrow> error + (string \<times> string) list" where
  "collect_settings [] found m = Inr m"
| "collect_settings (k # ks) found m =
     (case find (\<lambda>s. key s = k) found of
        None \<Rightarrow> Inl (Error (''Setting \"'' @ k @ ''\" missing during initialization''))
      | Some setting \<Rightarrow> collect_settings ks found (map_set m (key setting) (val setting)))"

definition initialize :: "ServerSettingsStore \<Rightarrow> (string \<times> string) list
    \<Rightarrow> error + ServerSettingsStore" where
  "initialize st defaults =
     (if store_initialized st then Inl (Error ''ServerSettingsStore already initialized!'')
      else (let found = repo st;
                saved = missing_defaults defaults found;
                found' = found @ saved
            in case collect_settings (map fst defaults) found' [] of
                 Inl e \<Rightarrow> Inl e
               | Inr m \<Rightarrow>
                   Inr (st\<lparr>repo := foldl repo_save (repo st) saved,
                           settings := Some m, store_initialized := True\<rparr>)))"

section \<open>Modes\<close>

subsection \<open>Mix tapes\<close>

text \<open>
  Source: interface \<open>MixTape\<close> (\<^verbatim>\<open>unnamed/part_001\<close>). A feed event is a timestamp
  (seconds from the start of the tape) with a horn, a song, a beat, an effect or
  something else; an effect builder is kept by name, the payload of \<open>other\<close> as text.
\<close>

record SongData =
  artist :: string
  title :: string

datatype cue = Horn nat | Song "SongData list" | Beat | Effect string | Other string

record FeedEvent =
  timestamp :: real
  cue :: cue

record MixTape =
  tape_name :: string
  songFile :: string
  feed :: "FeedEvent list"

subsection \<open>The Centurion mode: the tape scheduler\<close>

text \<open>
  Modelled from the spec: \<open>CenturionMode\<close> (its constructor, \<open>initialize\<close>, \<open>loadTape\<close>,
  \<open>start\<close>, \<open>skip\<close>, \<open>stop\<close> and the scheduling loop) is not among the sources. The
  specification: the playback state is the "current elapsed time, playing/paused flag,
  next-undispatched-cue index"; whether the collaborators are ready (the audio asset
  prepared) is a fact of the world kept in \<open>ready\<close>; \<open>dispatched\<close> records every cue
  dispatch as the elapsed time of the tick and the index of the cue.
\<close>

record CenturionMode =
  lights :: "SubscribeEntity list"
  screens :: "SubscribeEntity list"
  audios :: "SubscribeEntity list"
  initialised_with_emitter :: bool
  tape :: "MixTape option"
  ready :: bool
  playing :: bool
  startTime :: "real option"
  elapsed :: real
  nextCue :: nat
  dispatched :: "(real \<times> nat) list"

text \<open>
  Modelled from the spec: the constructor keeps the entities it is given ("a
  materialized mode object, constructed by the caller from entities resolved via the
  persistence collaborator"); nothing is loaded, ready or playing yet.
\<close>

definition CenturionMode_new ::
  "SubscribeEntity list \<Rightarrow> SubscribeEntity list \<Rightarrow> SubscribeEntity list \<Rightarrow> CenturionMode" where
  "CenturionMode_new ls ss as =
     \<lparr>lights = ls, screens = ss, audios = as, initialised_with_emitter = False, tape = None,
      ready = False, playing = False, startTime = None, elapsed = 0, nextCue = 0,
      dispatched = []\<rparr>"

text \<open>
  Modelled from the spec: \<open>initialize\<close>. The shared emitters are "handed to every mode
  on initialize".
\<close>

definition initialize_mode :: "CenturionMode \<Rightarrow> CenturionMode" where
  "initialize_mode m = m\<lparr>initialised_with_emitter := True\<rparr>"

text \<open>
  Modelled from the spec: \<open>loadTape(tape)\<close> "stores the ordered cue list and resets playback state to
  elapsed=0, next-cue-index=0".
\<close>

definition loadTape :: "CenturionMode \<Rightarrow> MixTape \<Rightarrow> CenturionMode" where
  "loadTape m t = m\<lparr>tape := Some t, elapsed := 0, nextCue := 0\<rparr>"

text \<open>Modelled from the spec: the cue list of the loaded tape (none when no tape is loaded).\<close>

definition cues :: "CenturionMode \<Rightarrow> FeedEvent list" where
  "cues m = (case tape m of None \<Rightarrow> [] | Some t \<Rightarrow> feed t)"

text \<open>
  Modelled from the spec: \<open>start()\<close> "fails (returns a not-ready signal, not an exception) if required
  collaborators are not ready; otherwise records a start timestamp, transitions to
  Playing". \<open>now\<close> is the clock at the call.
\<close>

definition start :: "CenturionMode \<Rightarrow> real \<Rightarrow> bool \<times> CenturionMode" where
  "start m now =
     (if \<not> ready m then (False, m) else (True, m\<lparr>startTime := Some now, playing := True\<rparr>))"

text \<open>
  Modelled from the spec: a tick of the scheduling loop, at elapsed time \<open>e\<close>, "dispatches every cue whose
  timestamp is \<open>\<le>\<close> elapsed and has not yet been dispatched, advancing next-cue-index
  monotonically". The loop runs while the mode is playing.
\<close>

definition tick :: "CenturionMode \<Rightarrow> real \<Rightarrow> CenturionMode" where
  "tick m e =
     (if \<not> playing m then m
      else (let due = takeWhile (\<lambda>c. timestamp c \<le> e) (drop (nextCue m) (cues m))
            in m\<lparr>elapsed := e,
                 nextCue := nextCue m + length due,
                 dispatched := dispatched m @
                   map (\<lambda>j. (e, j)) [nextCue m ..< nextCue m + length due]\<rparr>))"

text \<open>
  Modelled from the spec: \<open>skip(seconds)\<close> "re-anchors elapsed time to seconds (clamped to \<open>\<ge>\<close> 0) and
  recomputes next-cue-index as the first cue with timestamp > seconds".
\<close>

definition skip :: "CenturionMode \<Rightarrow> real \<Rightarrow> CenturionMode" where
  "skip m seconds =
     m\<lparr>elapsed := max seconds 0,
       nextCue := length (takeWhile (\<lambda>c. timestamp c \<le> seconds) (cues m))\<rparr>"

text \<open>
  Modelled from the spec: \<open>stop()\<close> "leaves elapsed/playback state intact for inspection
  but marks playing=false".
\<close>

definition stop :: "CenturionMode \<Rightarrow> CenturionMode" where
  "stop m = m\<lparr>playing := False\<rparr>"

subsection \<open>The mode manager\<close>

text \<open>
  Modelled from the spec: \<open>ModeManager\<close> (\<open>enableMode\<close>, \<open>disableMode\<close>, \<open>reset\<close>,
  \<open>getMode\<close>) and \<open>TimeTrailRaceMode\<close> are not among the sources. The specification:
  the state is "a mapping from mode-key to {mode type, instance}"; \<open>enableMode\<close> tears
  down the instance of the key, if any, and stores the new one; \<open>disableMode\<close> removes
  the instance of the key "if its stored type matches"; \<open>getMode\<close> is a "read-only
  lookup by mode type across all slots". Tearing an instance down drops it.
\<close>

record TimeTrailRaceMode =
  race_lights :: "SubscribeEntity list"
  race_screens :: "SubscribeEntity list"
  race_audios :: "SubscribeEntity list"
  sessionName :: "string option"

datatype mode_class = CenturionModeClass | TimeTrailRaceModeClass

datatype mode = CenturionModeOf CenturionMode | TimeTrailRaceModeOf TimeTrailRaceMode

type_synonym ModeManager = "(string \<times> (mode_class \<times> mode)) list"

text \<open>
  Modelled from the spec: \<open>enableMode(type, instance, key)\<close>, "if an instance exists for
  key, invoke its teardown/disable path first, then store the new instance and
  key\<rightarrow>type mapping".
\<close>

definition enableMode :: "ModeManager \<Rightarrow> mode_class \<Rightarrow> mode \<Rightarrow> string \<Rightarrow> ModeManager" where
  "enableMode mm mode_type instance k = map_set (filter (\<lambda>(k', s). k' \<noteq> k) mm) k (mode_type, instance)"

text \<open>
  Modelled from the spec: \<open>disableMode(type, key)\<close> "removes and tears down the instance
  for key if its stored type matches type; otherwise no-op".
\<close>

definition disableMode :: "ModeManager \<Rightarrow> mode_class \<Rightarrow> string \<Rightarrow> ModeManager" where
  "disableMode mm mode_type k =
     (case map_of mm k of
        None \<Rightarrow> mm
      | Some (stored, instance) \<Rightarrow>
          if stored = mode_type then filter (\<lambda>(k', s). k' \<noteq> k) mm else mm)"

text \<open>Modelled from the spec: \<open>reset()\<close> "disables every mode slot".\<close>

definition reset :: "ModeManager \<Rightarrow> ModeManager" where
  "reset mm = []"

text \<open>
  Modelled from the spec: \<open>getMode(type)\<close>, a "read-only lookup by mode type across all
  slots", which "returns not found (not an exception) when absent".
\<close>

definition getMode :: "ModeManager \<Rightarrow> mode_class \<Rightarrow> mode option" where
  "getMode mm mode_type =
     (case find (\<lambda>(k, (stored, instance)). stored = mode_type) mm of
        None \<Rightarrow> None
      | Some (k, (stored, instance)) \<Rightarrow> Some instance)"

text \<open>
  Modelled from the spec: a mode instance is an object, so a method called on what
  \<open>getMode\<close> returned changes the instance in the slot \<open>getMode\<close> found it in.
\<close>

fun put_mode :: "ModeManager \<Rightarrow> mode_class \<Rightarrow> mode \<Rightarrow> ModeManager" where
  "put_mode [] mode_type instance = []"
| "put_mode ((k, (stored, old)) # rest) mode_type instance =
     (if stored = mode_type then (k, (stored, instance)) # rest
      else (k, (stored, old)) # put_mode rest mode_type instance)"

subsection \<open>The Centurion controller\<close>

text \<open>
  Source: class \<open>CenturionController\<close>
  (\<^verbatim>\<open>src/modules/modes/centurion/centurion-controller.ts\<close>). A call ends in a thrown
  exception or in a returned value; with the value come the status set by \<open>setStatus\<close>
  (none when it was not called), the mode manager as the call leaves it, and the lines
  written to the audit log. \<open>getMode(CenturionMode) as CenturionMode\<close> is a cast: on an
  instance of another class the first property read or method call fails with a
  \<open>TypeError\<close>.
\<close>

datatype exception = ModeDisabledError string | TypeError

record 'a reply =
  outcome :: "exception + 'a"
  status :: "nat option"
  manager :: ModeManager
  audited :: "string list"

record CenturionResponse =
  response_name :: string
  response_startTime :: "real option"
  response_playing :: bool

text \<open>
  \<^verbatim>\<open>
  public getCenturion(): CenturionResponse {
    const mode = this.modeManager.getMode(CenturionMode) as CenturionMode;
    if (mode === undefined) throw new ModeDisabledError('Centurion not enabled');
    return { name: mode.tape.name, startTime: mode.startTime, playing: mode.playing };
  }
  \<close>
\<close>

definition getCenturion :: "ModeManager \<Rightarrow> CenturionResponse reply" where
  "getCenturion mm =
     (case getMode mm CenturionModeClass of
        None \<Rightarrow> \<lparr>outcome = Inl (ModeDisabledError ''Centurion not enabled''), status = None,
                  manager = mm, audited = []\<rparr>
      | Some (CenturionModeOf m) \<Rightarrow>
          (case tape m of
             None \<Rightarrow> \<lparr>outcome = Inl TypeError, status = None, manager = mm, audited = []\<rparr>
           | Some t \<Rightarrow>
               \<lparr>outcome = Inr \<lparr>response_name = tape_name t, response_startTime = startTime m,
                                response_playing = playing m\<rparr>,
                status = None, manager = mm, audited = []\<rparr>)
      | Some (TimeTrailRaceModeOf r) \<Rightarrow>
          \<lparr>outcome = Inl TypeError, status = None, manager = mm, audited = []\<rparr>)"

text \<open>
  \<^verbatim>\<open>
  public startCenturion(@Request() req: ExpressRequest) {
    const mode = this.modeManager.getMode(CenturionMode) as CenturionMode;
    if (mode === undefined) throw new ModeDisabledError('Centurion not enabled');
    logger.audit(req.user, 'Start Centurion.');
    if (!mode.start()) {
      this.setStatus(428);
      return 'Centurion not yet fully initialized. Please wait and try again later';
    }
    this.setStatus(204);
    return '';
  }
  \<close>
\<close>

definition startCenturion :: "ModeManager \<Rightarrow> real \<Rightarrow> string reply" where
  "startCenturion mm now =
     (case getMode mm CenturionModeClass of
        None \<Rightarrow> \<lparr>outcome = Inl (ModeDisabledError ''Centurion not enabled''), status = None,
                  manager = mm, audited = []\<rparr>
      | Some (CenturionModeOf m) \<Rightarrow>
          (let (started, m') = start m now;
               mm' = put_mode mm CenturionModeClass (CenturionModeOf m')
           in if \<not> started
              then \<lparr>outcome = Inr ''Centurion not yet fully initialized. Please wait and try again later'',
                    status = Some 428, manager = mm', audited = [''Start Centurion.'']\<rparr>
              else \<lparr>outcome = Inr '''', status = Some 204, manager = mm',
                    audited = [''Start Centurion.'']\<rparr>)
      | Some (TimeTrailRaceModeOf r) \<Rightarrow>
          \<lparr>outcome = Inl TypeError, status = None, manager = mm,
           audited = [''Start Centurion.'']\<rparr>)"

text \<open>
  \<^verbatim>\<open>
  public skipCenturion(@Request() req, @Body() { seconds }: SkipCenturionRequest) {
    const mode = this.modeManager.getMode(CenturionMode) as CenturionMode;
    if (mode === undefined) throw new ModeDisabledError('Centurion not enabled');
    logger.audit(req.user, `Skip Centurion to "${seconds}" seconds.`);
    mode.skip(seconds);
    this.setStatus(204);
    return '';
  }
  \<close>
  The number in the audit line is not rendered: the line is kept without it.
\<close>

definition skipCenturion :: "ModeManager \<Rightarrow> real \<Rightarrow> string reply" where
  "skipCenturion mm seconds =
     (case getMode mm CenturionModeClass of
        None \<Rightarrow> \<lparr>outcome = Inl (ModeDisabledError ''Centurion not enabled''), status = None,
                  manager = mm, audited = []\<rparr>
      | Some (CenturionModeOf m) \<Rightarrow>
          \<lparr>outcome = Inr '''', status = Some 204,
           manager = put_mode mm CenturionModeClass (CenturionModeOf (skip m seconds)),
           audited = [''Skip Centurion to seconds.'']\<rparr>
      | Some (TimeTrailRaceModeOf r) \<Rightarrow>
          \<lparr>outcome = Inl TypeError, status = None, manager = mm,
           audited = [''Skip Centurion to seconds.'']\<rparr>)"

text \<open>
  \<^verbatim>\<open>
  public stopCenturion(@Request() req: ExpressRequest) {
    const mode = this.modeManager.getMode(CenturionMode) as CenturionMode;
    if (mode === undefined) throw new ModeDisabledError('Centurion not enabled');
    logger.audit(req.user, 'Stop Centurion.');
    mode.stop();
    this.setStatus(204);
    return '';
  }
  \<close>
\<close>

definition stopCenturion :: "ModeManager \<Rightarrow> string reply" where
  "stopCenturion mm =
     (case getMode mm CenturionModeClass of
        None \<Rightarrow> \<lparr>outcome = Inl (ModeDisabledError ''Centurion not enabled''), status = None,
                  manager = mm, audited = []\<rparr>
      | Some (CenturionModeOf m) \<Rightarrow>
          \<lparr>outcome = Inr '''', status = Some 204,
           manager = put_mode mm CenturionModeClass (CenturionModeOf (stop m)),
           audited = [''Stop Centurion.'']\<rparr>
      | Some (TimeTrailRaceModeOf r) \<Rightarrow>
          \<lparr>outcome = Inl TypeError, status = None, manager = mm,
           audited = [''Stop Centurion.'']\<rparr>)"

subsection \<open>The mode controller\<close>

text \<open>
  Source: class \<open>ModeController\<close> (\<^verbatim>\<open>unnamed/part_000\<close>).
  \<^verbatim>\<open>
  interface EnableModeParams { lightsGroupIds: number[]; screenIds: number[]; audioIds: number[]; }
  interface CenturionParams extends EnableModeParams { centurionName: string; }

  private async findEntities(entity: typeof SubscribeEntity, ids: number[]) {
    return dataSource.getRepository(entity).find({ where: { id: In(ids) } });
  }

  private async mapBodyToEntities(params: EnableModeParams) {
    const lights = (await this.findEntities(LightsGroup, params.lightsGroupIds)) as LightsGroup[];
    const screens = (await this.findEntities(Screen, params.lightsGroupIds)) as Screen[];
    const audios = (await this.findEntities(Audio, params.lightsGroupIds)) as Audio[];
    return { lights, screens, audios };
  }
  \<close>
\<close>

record EnableModeParams =
  lightsGroupIds :: "nat list"
  screenIds :: "nat list"
  audioIds :: "nat list"

record CenturionParams = EnableModeParams +
  centurionName :: string

record TimeTrailRaceParams = EnableModeParams +
  raceSessionName :: string

definition findEntities :: "table \<Rightarrow> category \<Rightarrow> nat list \<Rightarrow> SubscribeEntity list" where
  "findEntities db entity ids = filter (\<lambda>r. kind r = entity \<and> ident r \<in> set ids) db"

definition mapBodyToEntities :: "table \<Rightarrow> 'a EnableModeParams_scheme
    \<Rightarrow> SubscribeEntity list \<times> SubscribeEntity list \<times> SubscribeEntity list" where
  "mapBodyToEntities db params =
     (let lights = findEntities db LightsGroup (lightsGroupIds params);
          screens = findEntities db Screen (lightsGroupIds params);
          audios = findEntities db Audio (lightsGroupIds params)
      in (lights, screens, audios))"

text \<open>
  \<^verbatim>\<open>
  public async enableCenturion(@Request() req, @Body() params: CenturionParams): Promise<string> {
    logger.audit(req.user, `Enable Centurion mode with tape "${params.centurionName}".`);
    const { lights, screens, audios } = await this.mapBodyToEntities(params);
    const centurionMode = new CenturionMode(lights, screens, audios);
    centurionMode.initialize(this.modeManager.musicEmitter);
    const tape = tapes.find((t) => t.name === params.centurionName);
    if (tape === undefined) {
      this.setStatus(404);
      return 'Centurion tape not found.';
    }
    centurionMode.loadTape(tape);
    this.modeManager.enableMode(CenturionMode, centurionMode, 'centurion');
    this.setStatus(204);
    return '';
  }
  \<close>
  The list \<open>tapes\<close> is not among the sources: it is a parameter.
\<close>

definition enableCenturion :: "MixTape list \<Rightarrow> table \<Rightarrow> ModeManager \<Rightarrow> CenturionParams
    \<Rightarrow> string reply" where
  "enableCenturion tapes db mm params =
     (let line = ''Enable Centurion mode with tape \"'' @ centurionName params @ ''\".'';
          (ls, ss, as) = mapBodyToEntities db params;
          centurionMode = initialize_mode (CenturionMode_new ls ss as)
      in case find (\<lambda>t. tape_name t = centurionName params) tapes of
           None \<Rightarrow> \<lparr>outcome = Inr ''Centurion tape not found.'', status = Some 404,
                     manager = mm, audited = [line]\<rparr>
         | Some t \<Rightarrow>
             \<lparr>outcome = Inr '''', status = Some 204,
              manager = enableMode mm CenturionModeClass
                          (CenturionModeOf (loadTape centurionMode t)) ''centurion'',
              audited = [line]\<rparr>)"

text \<open>
  \<^verbatim>\<open>
  public async enableTimeTrailRace(@Request() req, @Body() params: TimeTrailRaceParams) {
    logger.audit(req.user, `Enable Spoelbakkenrace mode for "${params.sessionName}".`);
    const { lights, screens, audios } = await this.mapBodyToEntities(params);
    const timeTrailRaceMode = new TimeTrailRaceMode(lights, screens, audios);
    timeTrailRaceMode.initialize(this.modeManager.backofficeSyncEmitter, params.sessionName);
    this.modeManager.enableMode(TimeTrailRaceMode, timeTrailRaceMode, 'time-trail-racing');
    this.setStatus(204);
    return '';
  }
  \<close>
\<close>

definition enableTimeTrailRace :: "table \<Rightarrow> ModeManager \<Rightarrow> TimeTrailRaceParams \<Rightarrow> string reply" where
  "enableTimeTrailRace db mm params =
     (let line = ''Enable Spoelbakkenrace mode for \"'' @ raceSessionName params @ ''\".'';
          (ls, ss, as) = mapBodyToEntities db params;
          timeTrailRaceMode = \<lparr>race_lights = ls, race_screens = ss, race_audios = as,
                               sessionName = Some (raceSessionName params)\<rparr>
      in \<lparr>outcome = Inr '''', status = Some 204,
          manager = enableMode mm TimeTrailRaceModeClass
                      (TimeTrailRaceModeOf timeTrailRaceMode) ''time-trail-racing'',
          audited = [line]\<rparr>)"

section \<open>Notions used in the statements and proofs\<close>

text \<open>
  What \<open>registerHandler\<close> does to the handlers of the entity's category: every handler
  drops the entity, and the one named \<open>n\<close> (when \<open>n\<close> is not empty) takes it.
\<close>

definition rebind :: "SubscribeEntity \<Rightarrow> string \<Rightarrow> BaseHandler list \<Rightarrow> BaseHandler list" where
  "rebind e n hs =
     map (\<lambda>h. if n \<noteq> '''' \<and> constructor_name h = n
               then registerEntity (removeEntity h e) e else removeEntity h e) hs"

text \<open>The loop invariant of the restore.\<close>

definition restore_inv :: "table \<Rightarrow> registry \<Rightarrow> bool" where
  "restore_inv db reg = (registry_ok reg \<and> at_most_one reg \<and> bindings_agree reg db)"

text \<open>
  The two bodies are one body with the event name and the new \<open>socketId\<close> as
  parameters.
\<close>

definition notify_body :: "string \<Rightarrow> string option \<Rightarrow> User \<Rightarrow> string \<Rightarrow> string
    \<Rightarrow> SubscribeEntity \<Rightarrow> Server \<times> table \<Rightarrow> SubscribeEntity \<times> (Server \<times> table)" where
  "notify_body ev v user sid handler_name entity w =
     (case w of (srv, db) \<Rightarrow>
        if name entity = user_name user
        then (entity\<lparr>socketId := v\<rparr>,
              (emit (socket_get srv sid) ev (Some handler_name) srv,
               save db (entity\<lparr>socketId := v\<rparr>)))
        else (entity, (srv, db)))"

text \<open>What a walk leaves behind, described without the threading.\<close>

definition touch :: "User \<Rightarrow> string option \<Rightarrow> SubscribeEntity \<Rightarrow> SubscribeEntity" where
  "touch user v e = (if name e = user_name user then e\<lparr>socketId := v\<rparr> else e)"

definition map_entities :: "(SubscribeEntity \<Rightarrow> SubscribeEntity) \<Rightarrow> registry \<Rightarrow> registry" where
  "map_entities f reg = map (\<lambda>(c, hs). (c, map (\<lambda>h. h\<lparr>entities := map f (entities h)\<rparr>) hs)) reg"

text \<open>
  The registered entities named like the user, each with the name of the handler that
  holds it, in the order of the walk.
\<close>

definition matches_handler :: "User \<Rightarrow> BaseHandler \<Rightarrow> (string \<times> SubscribeEntity) list" where
  "matches_handler user h =
     map (\<lambda>e. (constructor_name h, e)) (filter (\<lambda>e. name e = user_name user) (entities h))"

definition matches :: "User \<Rightarrow> registry \<Rightarrow> (string \<times> SubscribeEntity) list" where
  "matches user reg = concat (map (\<lambda>(c, hs). concat (map (matches_handler user) hs)) reg)"

definition pushes :: "string \<Rightarrow> string \<Rightarrow> (string \<times> SubscribeEntity) list \<Rightarrow> message list" where
  "pushes sid ev ms = map (\<lambda>(hn, e). \<lparr>to_socket = sid, event = ev, payload = Some hn\<rparr>) ms"

definition after_walk :: "string \<Rightarrow> string option \<Rightarrow> string \<Rightarrow> (string \<times> SubscribeEntity) list
    \<Rightarrow> Server \<times> table \<Rightarrow> Server \<times> table" where
  "after_walk ev v sid ms w =
     (case w of (srv, db) \<Rightarrow>
        (srv\<lparr>emitted := emitted srv @ (if sid \<in> sockets srv then pushes sid ev ms else [])\<rparr>,
         foldl save db (map (\<lambda>(hn, e). e\<lparr>socketId := v\<rparr>) ms)))"

text \<open>
  What a row holds after entity \<open>x\<close> was saved over it: the properties of \<open>x\<close>, and the
  \<open>socketId\<close> of \<open>x\<close> when \<open>x\<close> has one.
\<close>

definition written :: "SubscribeEntity \<Rightarrow> SubscribeEntity \<Rightarrow> bool" where
  "written r x =
     (kind r = kind x \<and> ident r = ident x \<and> name r = name x \<and>
      currentHandler r = currentHandler x \<and> (socketId x \<noteq> None \<longrightarrow> socketId r = socketId x))"

text \<open>
  No operation adds, removes or renames a handler: the keys of \<open>_handlers\<close> and the
  names of the handlers under each key stay those the constructor set, which are
  distinct.
\<close>

definition handler_names :: "registry \<Rightarrow> (category \<times> string list) list" where
  "handler_names reg = map (\<lambda>(c, hs). (c, map constructor_name hs)) reg"

text \<open>
  What an event for \<open>user\<close> and socket \<open>sid\<close> does, with \<open>ev\<close> the message and \<open>v\<close> the
  new \<open>socketId\<close>: every registered entity named like the user gets \<open>v\<close> and no other
  entity changes; each of them is saved, so the database then has a row with its key
  and that name, which holds \<open>v\<close> when \<open>v\<close> is a socket id; the rows of other keys are
  as before; when \<open>sid\<close> is a live socket, one message \<open>ev\<close> with the handler's name goes
  to it per matching entity and handler, and nothing is sent when it is not.
\<close>

definition tracked :: "string \<Rightarrow> string option \<Rightarrow> User \<Rightarrow> string
    \<Rightarrow> HandlerManager \<times> table \<Rightarrow> HandlerManager \<times> table \<Rightarrow> bool" where
  "tracked ev v user sid before after =
     (case (before, after) of ((hm, db), (hm', db')) \<Rightarrow>
        handlers hm' = map_entities (touch user v) (handlers hm) \<and>
        initialized hm' = initialized hm \<and>
        sockets (io hm') = sockets (io hm) \<and>
        emitted (io hm') = emitted (io hm) @
          (if sid \<in> sockets (io hm) then pushes sid ev (matches user (handlers hm)) else []) \<and>
        (\<forall>(hn, e) \<in> set (matches user (handlers hm)).
           \<exists>r. lookup_row db' (kind e) (ident e) = Some r \<and>
                name r = user_name user \<and> (v \<noteq> None \<longrightarrow> socketId r = v)) \<and>
        (\<forall>c i. (\<forall>(hn, e) \<in> set (matches user (handlers hm)). \<not> (kind e = c \<and> ident e = i)) \<longrightarrow>
           lookup_row db' c i = lookup_row db c i))"

text \<open>The number of leading cues with a timestamp up to \<open>e\<close>.\<close>

definition due_count :: "FeedEvent list \<Rightarrow> real \<Rightarrow> nat" where
  "due_count fd e = length (takeWhile (\<lambda>c. timestamp c \<le> e) fd)"

text \<open>The ticks at elapsed times \<open>es\<close> from cue index \<open>idx\<close>: the index and the log they leave.\<close>

fun run_idx :: "FeedEvent list \<Rightarrow> nat \<Rightarrow> real list \<Rightarrow> nat" where
  "run_idx fd idx [] = idx"
| "run_idx fd idx (e # es) = run_idx fd (max idx (due_count fd e)) es"

fun run_log :: "FeedEvent list \<Rightarrow> nat \<Rightarrow> real list \<Rightarrow> (real \<times> nat) list" where
  "run_log fd idx [] = []"
| "run_log fd idx (e # es) =
     map (\<lambda>j. (e, j)) [idx ..< max idx (due_count fd e)] @ run_log fd (max idx (due_count fd e)) es"

section \<open>Example data\<close>

text \<open>
  One lights group, one audio and one screen, as rows of the database; the lights group
  is connected as socket \<open>s1\<close>.
\<close>

definition venue_server :: Server where
  "venue_server = \<lparr>sockets = {''s1''}, emitted = []\<rparr>"

definition stage_lights :: SubscribeEntity where
  "stage_lights = \<lparr>kind = LightsGroup, ident = 1, name = ''stage'',
     currentHandler = ''RandomEffectsHandler'', socketId = Some ''s1''\<rparr>"

definition bar_audio :: SubscribeEntity where
  "bar_audio = \<lparr>kind = Audio, ident = 1, name = ''bar'',
     currentHandler = ''SimpleAudioHandler'', socketId = None\<rparr>"

definition wall_screen :: SubscribeEntity where
  "wall_screen = \<lparr>kind = Screen, ident = 1, name = ''wall'',
     currentHandler = '''', socketId = None\<rparr>"

definition venue_db :: table where
  "venue_db = [stage_lights, bar_audio, wall_screen]"

text \<open>The manager after the constructor and the boot restore from \<open>venue_db\<close>.\<close>

definition venue_manager :: HandlerManager where
  "venue_manager =
     \<lparr>initialized = False,
      handlers =
        [(Audio, [\<lparr>constructor_name = ''SimpleAudioHandler'', entities = [bar_audio]\<rparr>]),
         (LightsGroup,
          [\<lparr>constructor_name = ''RandomEffectsHandler'', entities = [stage_lights]\<rparr>,
           \<lparr>constructor_name = ''SetEffectsHandler'', entities = []\<rparr>,
           \<lparr>constructor_name = ''DevelopEffectsHandler'', entities = []\<rparr>]),
         (Screen, [])],
      io = venue_server\<rparr>"

definition venue_emitter :: SocketConnectionEmitter where
  "venue_emitter = [(''connect'', OnConnect), (''disconnect'', OnDisconnect)]"

text \<open>The tape of the specification's scenario: a horn at 0, a song at 5, a horn at 10.\<close>

definition scenario_tape :: MixTape where
  "scenario_tape =
     \<lparr>tape_name = ''scenario'', songFile = ''scenario.mp3'',
      feed = [\<lparr>timestamp = 0, cue = Horn 1\<rparr>,
              \<lparr>timestamp = 5, cue = Song [\<lparr>artist = ''a'', title = ''b''\<rparr>]\<rparr>,
              \<lparr>timestamp = 10, cue = Horn 2\<rparr>]\<rparr>"

text \<open>A mode with that tape loaded, its collaborators ready, started at clock 0.\<close>

definition scenario_mode :: CenturionMode where
  "scenario_mode =
     snd (start ((loadTape (initialize_mode (CenturionMode_new [] [] [])) scenario_tape)
            \<lparr>ready := True\<rparr>) 0)"

text \<open>A manager with the scenario mode enabled, its collaborators not ready yet.\<close>

definition waiting_manager :: ModeManager where
  "waiting_manager =
     enableMode [] CenturionModeClass
       (CenturionModeOf (loadTape (initialize_mode (CenturionMode_new [] [] [])) scenario_tape))
       ''centurion''"

definition unknown_tape_request :: CenturionParams where
  "unknown_tape_request =
     \<lparr>lightsGroupIds = [1], screenIds = [1], audioIds = [1], centurionName = ''missing''\<rparr>"

text \<open>The small installation with a second screen and a second audio.\<close>

definition hall_db :: table where
  "hall_db = venue_db @
     [\<lparr>kind = Screen, ident = 2, name = ''hall'', currentHandler = '''', socketId = None\<rparr>,
      \<lparr>kind = Audio, ident = 3, name = ''hall'', currentHandler = '''', socketId = None\<rparr>]"

section \<open>Properties of the triangle wave\<close>

lemma minus_one_powi: "((- 1::real) powi k) = (if even k then 1 else - 1)"
  by (cases "even k") simp_all




lemma triangle_abs_le_1:
  fixes t p :: real
  assumes p: "p \<noteq> 0"
  shows "\<bar>triangleFunction t p\<bar> \<le> 1"
proof -
  define y where "y = 2 * t / p"
  define k where "k = \<lfloor>y + 1 / 2\<rfloor>"
  have ty: "t = p * y / 2" using p by (simp add: y_def)
  have tf: "triangleFunction t p = (4 / p) * (t - (p / 2) * of_int k) * (- 1) powi k"
    by (simp add: triangleFunction_def k_def y_def Let_def)
  have core: "(4 / p) * (t - (p / 2) * of_int k) = 2 * (y - of_int k)"
    using p by (simp add: ty field_simps)
  have "of_int k \<le> y + 1 / 2" and "y + 1 / 2 < of_int k + 1"
    by (simp_all add: k_def)
  then have "\<bar>2 * (y - of_int k)\<bar> \<le> 1" by (simp add: abs_le_iff)
  then show ?thesis
    unfolding tf core by (simp add: abs_mult minus_one_powi)
qed

lemma triangle_shift_period:
  fixes t p :: real
  assumes p: "p \<noteq> 0"
  shows "triangleFunction (t + p) p = triangleFunction t p"
proof -
  have fl: "\<lfloor>2 * (t + p) / p + 0.5\<rfloor> = \<lfloor>2 * t / p + 0.5\<rfloor> + 2"
  proof -
    have "2 * (t + p) / p + 0.5 = (2 * t / p + 0.5) + of_int 2"
      using p by (simp add: field_simps)
    then show ?thesis by (simp only: floor_add_int)
  qed
  show ?thesis
    unfolding triangleFunction_def Let_def fl using p
    by (simp add: minus_one_powi field_simps)
qed

lemma triangle_scaled_range:
  "0 \<le> triangleFunction x 1 * 128 + 128 \<and> triangleFunction x 1 * 128 + 128 \<le> 256"
proof -
  have "\<bar>triangleFunction x 1\<bar> \<le> 1" by (rule triangle_abs_le_1) simp
  then show ?thesis by (simp add: abs_le_iff)
qed



subsection \<open>Binary64 rounding\<close>

lemma rne_of_int: "rne (of_int k) = k"
  by (simp add: rne_def)

lemma rne_cases: "rne r = \<lfloor>r\<rfloor> \<or> rne r = \<lfloor>r\<rfloor> + 1"
  by (simp add: rne_def Let_def)

lemma rne_le:
  assumes "r \<le> of_int N"
  shows "rne r \<le> N"
proof (cases "r = of_int N")
  case True
  then show ?thesis by (simp add: rne_of_int)
next
  case False
  then have "r < of_int N" using assms by simp
  then have "\<lfloor>r\<rfloor> < N" by (simp add: floor_less_iff)
  then show ?thesis using rne_cases [of r] by linarith
qed

lemma rne_ge:
  assumes "of_int N \<le> r"
  shows "N \<le> rne r"
proof -
  have "N \<le> \<lfloor>r\<rfloor>" using assms by (simp add: le_floor_iff)
  then show ?thesis using rne_cases [of r] by linarith
qed

lemma rne_near: "\<bar>r - of_int (rne r)\<bar> \<le> 1 / 2"
proof -
  have a: "of_int \<lfloor>r\<rfloor> \<le> r" and b: "r < of_int \<lfloor>r\<rfloor> + 1" by linarith+
  show ?thesis
    using a b by (auto simp: rne_def Let_def abs_le_iff)
qed

lemma rne_half_even:
  assumes "even N" and "of_int N - 1 / 2 \<le> r" and "r \<le> of_int N"
  shows "rne r = N"
proof (cases "r = of_int N")
  case True
  then show ?thesis by (simp add: rne_of_int)
next
  case False
  then have lt: "r < of_int N" using assms(3) by simp
  have "of_int (N - 1) \<le> r" using assms(2) by simp
  moreover have "r < of_int (N - 1) + 1" using lt by simp
  ultimately have fl: "\<lfloor>r\<rfloor> = N - 1" by (simp add: floor_unique)
  have odd: "odd (N - 1)" using assms(1) by simp
  show ?thesis
    using assms(2) odd by (simp add: rne_def Let_def fl)
qed

lemma binade_eq:
  assumes "x \<noteq> 0" and "2 powi k \<le> \<bar>x\<bar>" and "\<bar>x\<bar> < 2 powi (k + 1)"
  shows "binade x = k"
proof -
  have pos: "0 < \<bar>x\<bar>" using assms(1) by simp
  have a: "(2::real) powr real_of_int k = 2 powi k"
    by (rule powr_real_of_int') simp_all
  have b: "(2::real) powr real_of_int (k + 1) = 2 powi (k + 1)"
    by (rule powr_real_of_int') simp_all
  have two: "(1::real) < 2" by simp
  have "\<lfloor>log 2 \<bar>x\<bar>\<rfloor> = k"
    unfolding floor_log_eq_powr_iff [OF pos two] a b
    using assms(2,3) by (rule conjI)
  then show ?thesis by (simp add: binade_def)
qed

lemma binade_less:
  assumes "x \<noteq> 0" and "\<bar>x\<bar> < 2 powi k"
  shows "binade x < k"
proof -
  have pos: "0 < \<bar>x\<bar>" using assms(1) by simp
  have a: "(2::real) powr real_of_int k = 2 powi k"
    by (rule powr_real_of_int') simp_all
  have "log 2 \<bar>x\<bar> < real_of_int k"
    using assms(2) pos by (simp add: log_less_iff a)
  then show ?thesis by (simp add: binade_def floor_less_iff)
qed

lemma binade_bounds:
  assumes "x \<noteq> 0"
  shows "2 powi (binade x) \<le> \<bar>x\<bar>" and "\<bar>x\<bar> < 2 powi (binade x + 1)"
proof -
  have pos: "0 < \<bar>x\<bar>" using assms by simp
  have two: "(1::real) < 2" by simp
  have a: "(2::real) powr real_of_int (binade x) = 2 powi (binade x)"
    by (rule powr_real_of_int') simp_all
  have b: "(2::real) powr real_of_int (binade x + 1) = 2 powi (binade x + 1)"
    by (rule powr_real_of_int') simp_all
  have "\<lfloor>log 2 \<bar>x\<bar>\<rfloor> = binade x" by (simp add: binade_def)
  then have "2 powi (binade x) \<le> \<bar>x\<bar> \<and> \<bar>x\<bar> < 2 powi (binade x + 1)"
    unfolding floor_log_eq_powr_iff [OF pos two] a b .
  then show "2 powi (binade x) \<le> \<bar>x\<bar>" and "\<bar>x\<bar> < 2 powi (binade x + 1)" by simp_all
qed

lemma binade_ge:
  assumes "2 powi k \<le> \<bar>x\<bar>"
  shows "k \<le> binade x"
proof -
  have pk: "(0::real) < 2 powi k" by simp
  have x0: "x \<noteq> 0"
  proof
    assume "x = 0"
    then have "2 powi k \<le> (0::real)" using assms by simp
    then show False using pk by linarith
  qed
  have "2 powi k < (2::real) powi (binade x + 1)"
    using assms binade_bounds(2) [OF x0] by linarith
  have "k < binade x + 1"
  proof (rule ccontr)
    assume "\<not> k < binade x + 1"
    then have "binade x + 1 \<le> k" by simp
    then have "(2::real) powi (binade x + 1) \<le> 2 powi k"
      by (rule power_int_increasing) simp
    then show False using \<open>2 powi k < (2::real) powi (binade x + 1)\<close> by linarith
  qed
  then show ?thesis by simp
qed

lemma of_int_abs_less_pow:
  fixes z :: int
  assumes "\<bar>real_of_int z\<bar> < 2 ^ n"
  shows "\<bar>z\<bar> < 2 ^ n"
proof -
  have "real_of_int \<bar>z\<bar> < real_of_int (2 ^ n)" using assms by simp
  then show ?thesis by (simp only: of_int_less_iff)
qed

lemma of_int_abs_le_pow:
  fixes z :: int
  assumes "\<bar>real_of_int z\<bar> \<le> 2 ^ n"
  shows "\<bar>z\<bar> \<le> 2 ^ n"
proof -
  have "real_of_int \<bar>z\<bar> \<le> real_of_int (2 ^ n)" using assms by simp
  then show ?thesis by (simp only: of_int_le_iff)
qed

text \<open>
  A number \<open>m 2^e\<close> with \<open>|m| < 2^53\<close>, \<open>e \<ge> -1074\<close> and magnitude below \<open>2^1024\<close> is a
  binary64 number: rounding leaves it as it is.
\<close>

lemma round64_exact_gen:
  fixes m e :: int
  assumes m: "\<bar>m\<bar> < 2 ^ 53" and lo: "- 1074 \<le> e"
    and big: "\<bar>real_of_int m * 2 powi e\<bar> < 2 powi 1024"
  shows "round64 (of_int m * 2 powi e) = Some (of_int m * 2 powi e)"
proof (cases "m = 0")
  case True
  then show ?thesis by (simp add: round64_def)
next
  case False
  define x :: real where "x = of_int m * 2 powi e"
  have x0: "x \<noteq> 0" using False by (simp add: x_def)
  have mr: "\<bar>real_of_int m\<bar> < 2 ^ 53"
  proof -
    have "real_of_int \<bar>m\<bar> < real_of_int (2 ^ 53)" using m by (simp only: of_int_less_iff)
    then show ?thesis by simp
  qed
  have pe: "(0::real) < 2 powi e" by simp
  have "\<bar>x\<bar> = \<bar>real_of_int m\<bar> * 2 powi e" by (simp add: x_def abs_mult)
  also have "\<dots> < 2 ^ 53 * 2 powi e" using mr pe by simp
  also have "\<dots> = 2 powi (53 + e)" by (simp add: power_int_add)
  finally have xb: "\<bar>x\<bar> < 2 powi (53 + e)" .
  then have "binade x < 53 + e" using x0 by (rule binade_less [rotated])
  define u where "u = max (binade x - 52) (- 1074)"
  have ue: "u \<le> e" using \<open>binade x < 53 + e\<close> lo by (simp add: u_def)
  have "x / 2 powi u = of_int m * 2 powi (e - u)"
    by (simp add: x_def power_int_diff)
  also have "\<dots> = of_int m * 2 ^ nat (e - u)"
    using ue by (simp add: power_int_def)
  also have "\<dots> = of_int (m * 2 ^ nat (e - u))" by simp
  finally have q: "x / 2 powi u = of_int (m * 2 ^ nat (e - u))" .
  have y: "of_int (rne (x / 2 powi u)) * 2 powi u = x"
    unfolding q rne_of_int using q [symmetric] by simp
  show ?thesis
    using x0 y big unfolding x_def [symmetric] round64_def Let_def u_def [symmetric]
    by simp
qed

lemma round64_exact:
  fixes m e :: int
  assumes m: "\<bar>m\<bar> < 2 ^ 53" and lo: "- 1074 \<le> e" and hi: "e \<le> 971"
  shows "round64 (of_int m * 2 powi e) = Some (of_int m * 2 powi e)"
  using m lo
proof (rule round64_exact_gen)
  have mr: "\<bar>real_of_int m\<bar> < 2 ^ 53"
  proof -
    have "real_of_int \<bar>m\<bar> < real_of_int (2 ^ 53)" using m by (simp only: of_int_less_iff)
    then show ?thesis by simp
  qed
  have pe: "(0::real) < 2 powi e" by simp
  have "\<bar>real_of_int m * 2 powi e\<bar> = \<bar>real_of_int m\<bar> * 2 powi e" by (simp add: abs_mult)
  also have "\<dots> < 2 ^ 53 * 2 powi e" using mr pe by simp
  also have "\<dots> = 2 powi (53 + e)" by (simp add: power_int_add)
  also have "\<dots> \<le> 2 powi 1024" by (rule power_int_increasing) (use hi in simp_all)
  finally show "\<bar>real_of_int m * 2 powi e\<bar> < 2 powi 1024" .
qed

lemma round64_grid:
  fixes m :: int and j :: nat
  assumes "x = of_int m / 2 ^ j" and "\<bar>m\<bar> < 2 ^ 53" and "j \<le> 1074"
  shows "round64 x = Some x"
proof -
  have "x = of_int m * 2 powi (- int j)"
    by (simp add: assms(1) power_int_minus field_simps)
  then show ?thesis
    using round64_exact [of m "- int j"] assms(2,3) by simp
qed

text \<open>
  The rounding of a number whose binade is known.
\<close>

lemma round64_at:
  assumes "x \<noteq> 0" and "2 powi k \<le> \<bar>x\<bar>" and "\<bar>x\<bar> < 2 powi (k + 1)"
    and "- 1022 \<le> k"
  shows "round64 x =
     (let y = of_int (rne (x / 2 powi (k - 52))) * 2 powi (k - 52)
      in if \<bar>y\<bar> < 2 powi 1024 then Some y else None)"
proof -
  have "binade x = k" using assms(1-3) by (rule binade_eq)
  moreover have "max (k - 52) (- 1074) = k - 52" using assms(4) by simp
  ultimately show ?thesis using assms(1) by (simp add: round64_def Let_def)
qed

text \<open>
  Rounding is monotone with respect to the numbers of a grid \<open>2^i\<close> that is not finer
  than the binary64 numbers around \<open>x\<close>: a result stays between two such numbers that
  enclose \<open>x\<close>.
\<close>

lemma round64_upper:
  fixes D i :: int and x :: real
  assumes x0: "x \<noteq> 0" and xb: "\<bar>x\<bar> < 2 powi (i + 53)" and lo: "- 1074 \<le> i"
    and le: "x \<le> of_int D * 2 powi i"
  shows "real_of_int (rne (x / 2 powi (max (binade x - 52) (- 1074)))) *
           2 powi (max (binade x - 52) (- 1074)) \<le> of_int D * 2 powi i"
proof -
  define e where "e = max (binade x - 52) (- 1074)"
  have "binade x < i + 53" using x0 xb by (rule binade_less)
  then have ei: "e \<le> i" using lo by (simp add: e_def)
  have pe: "(0::real) < 2 powi e" by simp
  have sp: "(2::real) powi i = 2 ^ nat (i - e) * 2 powi e"
  proof -
    have "(2::real) powi i = 2 powi ((i - e) + e)" by simp
    also have "\<dots> = 2 powi (i - e) * 2 powi e" by (rule power_int_add) simp
    also have "(2::real) powi (i - e) = 2 ^ nat (i - e)" using ei by (simp add: power_int_def)
    finally show ?thesis .
  qed
  have "x / 2 powi e \<le> of_int D * 2 ^ nat (i - e)"
    using le pe unfolding sp by (simp add: field_simps)
  also have "\<dots> = of_int (D * 2 ^ nat (i - e))" by simp
  finally have "rne (x / 2 powi e) \<le> D * 2 ^ nat (i - e)" by (rule rne_le)
  then have "real_of_int (rne (x / 2 powi e)) \<le> real_of_int (D * 2 ^ nat (i - e))"
    by (simp only: of_int_le_iff)
  then have "real_of_int (rne (x / 2 powi e)) * 2 powi e \<le> real_of_int (D * 2 ^ nat (i - e)) * 2 powi e"
    using pe by (simp only: mult_le_cancel_right_pos)
  also have "\<dots> = of_int D * 2 powi i" unfolding sp by simp
  finally show ?thesis unfolding e_def .
qed

lemma round64_lower:
  fixes D i :: int and x :: real
  assumes x0: "x \<noteq> 0" and xb: "\<bar>x\<bar> < 2 powi (i + 53)" and lo: "- 1074 \<le> i"
    and le: "of_int D * 2 powi i \<le> x"
  shows "real_of_int D * 2 powi i \<le>
           of_int (rne (x / 2 powi (max (binade x - 52) (- 1074)))) *
           2 powi (max (binade x - 52) (- 1074))"
proof -
  define e where "e = max (binade x - 52) (- 1074)"
  have "binade x < i + 53" using x0 xb by (rule binade_less)
  then have ei: "e \<le> i" using lo by (simp add: e_def)
  have pe: "(0::real) < 2 powi e" by simp
  have sp: "(2::real) powi i = 2 ^ nat (i - e) * 2 powi e"
  proof -
    have "(2::real) powi i = 2 powi ((i - e) + e)" by simp
    also have "\<dots> = 2 powi (i - e) * 2 powi e" by (rule power_int_add) simp
    also have "(2::real) powi (i - e) = 2 ^ nat (i - e)" using ei by (simp add: power_int_def)
    finally show ?thesis .
  qed
  have "of_int (D * 2 ^ nat (i - e)) = of_int D * (2::real) ^ nat (i - e)" by simp
  also have "\<dots> \<le> x / 2 powi e"
    using le pe unfolding sp by (simp add: field_simps)
  finally have "D * 2 ^ nat (i - e) \<le> rne (x / 2 powi e)" by (rule rne_ge)
  then have "real_of_int (D * 2 ^ nat (i - e)) \<le> real_of_int (rne (x / 2 powi e))"
    by (simp only: of_int_le_iff)
  then have "real_of_int (D * 2 ^ nat (i - e)) * 2 powi e \<le> real_of_int (rne (x / 2 powi e)) * 2 powi e"
    using pe by (simp only: mult_le_cancel_right_pos)
  moreover have "real_of_int (D * 2 ^ nat (i - e)) * 2 powi e = of_int D * 2 powi i"
    unfolding sp by simp
  ultimately have "real_of_int D * 2 powi i \<le> real_of_int (rne (x / 2 powi e)) * 2 powi e"
    by (simp only:)
  then show ?thesis unfolding e_def .
qed

lemma round64_between:
  fixes A B i :: int and x :: real
  assumes xb: "\<bar>x\<bar> < 2 powi (i + 53)" and lo: "- 1074 \<le> i"
    and a: "of_int A * 2 powi i \<le> x" and b: "x \<le> of_int B * 2 powi i"
    and fa: "- (2 powi 1024) < real_of_int A * 2 powi i"
    and fb: "real_of_int B * 2 powi i < 2 powi 1024"
  shows "\<exists>c. round64 x = Some c \<and> real_of_int A * 2 powi i \<le> c \<and>
           c \<le> real_of_int B * 2 powi i"
proof (cases "x = 0")
  case True
  then show ?thesis using a b by (simp add: round64_def)
next
  case False
  define c :: real where "c = of_int (rne (x / 2 powi (max (binade x - 52) (- 1074)))) *
      2 powi (max (binade x - 52) (- 1074))"
  have u: "c \<le> of_int B * 2 powi i"
    unfolding c_def using False xb lo b by (rule round64_upper)
  have l: "of_int A * 2 powi i \<le> c"
    unfolding c_def using False xb lo a by (rule round64_lower)
  have "\<bar>c\<bar> < 2 powi 1024" using u l fa fb by (simp add: abs_less_iff)
  then have "round64 x = Some c"
    using False by (simp add: round64_def Let_def c_def)
  then show ?thesis using u l by blast
qed

text \<open>
  A binary64 number is an integer of fewer than 54 bits times the unit of its binade;
  the result of a rounding is a binary64 number; twice a binary64 number is one.
\<close>

lemma double_repr:
  assumes "round64 t = Some t"
  shows "\<exists>N. t = of_int N * 2 powi (max (binade t - 52) (- 1074)) \<and> \<bar>N\<bar> < 2 ^ 53"
proof (cases "t = 0")
  case True
  then show ?thesis by (intro exI [of _ 0]) simp
next
  case False
  define e where "e = max (binade t - 52) (- 1074)"
  define N where "N = rne (t / 2 powi e)"
  have t: "t = of_int N * 2 powi e"
    using assms False unfolding round64_def Let_def e_def [symmetric] N_def [symmetric]
    by (simp split: if_splits)
  have pe: "(0::real) < 2 powi e" by simp
  have "\<bar>t\<bar> < 2 powi (binade t + 1)" using False by (rule binade_bounds)
  also have "\<dots> \<le> 2 powi (e + 53)"
    by (rule power_int_increasing) (simp_all add: e_def)
  also have "\<dots> = 2 ^ 53 * 2 powi e" by (simp add: power_int_add)
  finally have lt: "\<bar>t\<bar> < 2 ^ 53 * 2 powi e" .
  have "\<bar>t\<bar> = \<bar>real_of_int N * 2 powi e\<bar>" using t by (rule arg_cong)
  also have "\<dots> = \<bar>real_of_int N\<bar> * 2 powi e" by (simp add: abs_mult)
  finally have "\<bar>real_of_int N\<bar> * 2 powi e < 2 ^ 53 * 2 powi e" using lt by (simp only:)
  then have "\<bar>real_of_int N\<bar> < 2 ^ 53" using pe by (simp only: mult_less_cancel_right_pos)
  then have "\<bar>N\<bar> < 2 ^ 53" by (rule of_int_abs_less_pow)
  then show ?thesis using t unfolding e_def by blast
qed

lemma round64_idem:
  assumes "round64 x = Some c"
  shows "round64 c = Some c"
proof (cases "x = 0")
  case True
  then show ?thesis using assms by (simp add: round64_def)
next
  case False
  define e where "e = max (binade x - 52) (- 1074)"
  define R where "R = rne (x / 2 powi e)"
  have c: "c = of_int R * 2 powi e" and big: "\<bar>c\<bar> < 2 powi 1024"
    using assms False unfolding round64_def Let_def e_def [symmetric] R_def [symmetric]
    by (simp_all split: if_splits)
  have lo: "- 1074 \<le> e" by (simp add: e_def)
  have pe: "(0::real) < 2 powi e" by simp
  have "\<bar>x\<bar> < 2 powi (binade x + 1)" using False by (rule binade_bounds)
  also have "\<dots> \<le> 2 powi (e + 53)"
    by (rule power_int_increasing) (simp_all add: e_def)
  also have "\<dots> = 2 ^ 53 * 2 powi e" by (simp add: power_int_add)
  finally have lt: "\<bar>x\<bar> < 2 ^ 53 * 2 powi e" .
  have "x < 2 ^ 53 * 2 powi e" using lt by linarith
  then have "x / 2 powi e \<le> 2 ^ 53" using pe by (simp add: field_simps)
  then have "x / 2 powi e \<le> real_of_int (2 ^ 53)" by simp
  then have r1: "R \<le> 2 ^ 53" unfolding R_def by (rule rne_le)
  have "- (2 ^ 53 * 2 powi e) < x" using lt by linarith
  then have "- (2 ^ 53) \<le> x / 2 powi e" using pe by (simp add: field_simps)
  then have "real_of_int (- (2 ^ 53)) \<le> x / 2 powi e" by simp
  then have r2: "- (2 ^ 53) \<le> R" unfolding R_def by (rule rne_ge)
  consider "\<bar>R\<bar> < 2 ^ 53" | "R = 2 ^ 53" | "R = - (2 ^ 53)" using r1 r2 by linarith
  then show ?thesis
  proof cases
    case 1
    show ?thesis unfolding c using 1 lo big [unfolded c] by (rule round64_exact_gen)
  next
    case 2
    have c2: "c = of_int 1 * 2 powi (e + 53)"
      unfolding c 2 by (simp add: power_int_add)
    show ?thesis unfolding c2
      by (rule round64_exact_gen) (use lo big [unfolded c2] in simp_all)
  next
    case 3
    have c3: "c = of_int (- 1) * 2 powi (e + 53)"
      unfolding c 3 by (simp add: power_int_add)
    show ?thesis unfolding c3
      by (rule round64_exact_gen) (use lo big [unfolded c3] in simp_all)
  qed
qed

lemma double_times2:
  assumes dt: "round64 t = Some t" and tb: "\<bar>t\<bar> \<le> 2 ^ 1000"
  shows "round64 (2 * t) = Some (2 * t)"
proof -
  obtain N where t: "t = of_int N * 2 powi (max (binade t - 52) (- 1074))" and N: "\<bar>N\<bar> < 2 ^ 53"
    using double_repr [OF dt] by blast
  define e where "e = max (binade t - 52) (- 1074)"
  have t2: "2 * t = of_int N * 2 powi (e + 1)"
    using t unfolding e_def [symmetric] by (simp add: power_int_add)
  have "\<bar>2 * t\<bar> < 2 powi 1024" using tb by simp
  then have "\<bar>real_of_int N * 2 powi (e + 1)\<bar> < 2 powi 1024" by (simp only: t2)
  then show ?thesis unfolding t2
    by (intro round64_exact_gen N) (simp_all add: e_def)
qed

lemma round64_within:
  fixes x :: real and A B :: int
  assumes a: "of_int A \<le> x" and b: "x \<le> of_int B"
    and A: "- (2 ^ 52) \<le> A" and B: "B \<le> 2 ^ 52"
  shows "\<exists>c. round64 x = Some c \<and> round64 c = Some c \<and> of_int A \<le> c \<and> c \<le> of_int B"
proof -
  have Ar: "- (2 ^ 52) \<le> real_of_int A"
  proof -
    have "real_of_int (- (2 ^ 52)) \<le> real_of_int A" using A by (simp only: of_int_le_iff)
    then show ?thesis by simp
  qed
  have Br: "real_of_int B \<le> 2 ^ 52"
  proof -
    have "real_of_int B \<le> real_of_int (2 ^ 52)" using B by (simp only: of_int_le_iff)
    then show ?thesis by simp
  qed
  have "\<exists>c. round64 x = Some c \<and> real_of_int A * 2 powi 0 \<le> c \<and> c \<le> real_of_int B * 2 powi 0"
  proof (rule round64_between)
    show "\<bar>x\<bar> < 2 powi (0 + 53)" using a b Ar Br by (simp add: abs_less_iff)
    show "- 1074 \<le> (0::int)" by simp
    show "real_of_int A * 2 powi 0 \<le> x" using a by simp
    show "x \<le> real_of_int B * 2 powi 0" using b by simp
    show "- (2 powi 1024) < real_of_int A * 2 powi 0" using Ar by simp
    show "real_of_int B * 2 powi 0 < 2 powi 1024" using Br by simp
  qed
  then obtain c where c: "round64 x = Some c" "of_int A \<le> c" "c \<le> of_int B" by auto
  have "round64 c = Some c" using c(1) by (rule round64_idem)
  then show ?thesis using c by blast
qed

text \<open>
  Two roundings that \<open>triangleFunction\<close> meets. A number at most \<open>2^-55\<close> below \<open>-1/4\<close>
  rounds to \<open>-1/4\<close>. And for a binary64 number \<open>y\<close> of magnitude at most \<open>2^51\<close>, the sum
  \<open>y + 0.5\<close> rounds up to the next integer only when that integer is 1 and the sum is
  at most \<open>2^-54\<close> below it.
\<close>

lemma round64_quarter:
  assumes "- (1 / 4) - 1 / 2 ^ 55 \<le> x" and "x < - (1 / 4)"
  shows "round64 x = Some (- (1 / 4))"
proof -
  have x0: "x \<noteq> 0" using assms by simp
  have b1: "2 powi (- 2) \<le> \<bar>x\<bar>" using assms by simp
  have b2: "\<bar>x\<bar> < 2 powi (- 2 + 1)" using assms by (simp add: abs_less_iff)
  have r: "round64 x =
      (let y = of_int (rne (x / 2 powi (- 2 - 52))) * 2 powi (- 2 - 52)
       in if \<bar>y\<bar> < 2 powi 1024 then Some y else None)"
    using x0 b1 b2 by (rule round64_at) simp
  have "rne (x * 2 ^ 54) = - (2 ^ 52)"
  proof (rule rne_half_even)
    show "even (- (2 ^ 52) :: int)" by simp
    show "real_of_int (- (2 ^ 52)) - 1 / 2 \<le> x * 2 ^ 54" using assms(1) by (simp add: field_simps)
    show "x * 2 ^ 54 \<le> real_of_int (- (2 ^ 52))" using assms(2) by (simp add: field_simps)
  qed
  then show ?thesis unfolding r by simp
qed

lemma round_up_to_integer:
  fixes y :: real and k0 :: int
  assumes dy: "round64 y = Some y" and yb: "\<bar>y\<bar> \<le> 2 ^ 51"
    and k1: "of_int k0 \<le> y + 1 / 2" and k2: "y + 1 / 2 < of_int k0 + 1"
    and c: "round64 (y + 1 / 2) = Some (of_int k0 + 1)"
  shows "k0 = 0 \<and> 1 - 1 / 2 ^ 54 \<le> y + 1 / 2"
proof -
  define z where "z = y + 1 / 2"
  have zb: "\<bar>z\<bar> < 2 powi 52" using yb by (simp add: z_def abs_less_iff abs_le_iff)
  have cz: "round64 z = Some (of_int k0 + 1)" using c by (simp add: z_def)
  have kb: "\<bar>real_of_int k0\<bar> < 2 ^ 52" using k1 k2 yb by (simp add: abs_less_iff abs_le_iff)
  have half: "of_int k0 + 1 / 2 \<le> z"
  proof (rule ccontr)
    assume "\<not> of_int k0 + 1 / 2 \<le> z"
    then have lt: "z \<le> real_of_int (2 * k0 + 1) * 2 powi (- 1)" by simp
    have ge: "real_of_int (2 * k0) * 2 powi (- 1) \<le> z" using k1 by (simp add: z_def)
    have "\<exists>c. round64 z = Some c \<and> real_of_int (2 * k0) * 2 powi (- 1) \<le> c \<and>
        c \<le> real_of_int (2 * k0 + 1) * 2 powi (- 1)"
      using _ _ ge lt
    proof (rule round64_between)
      show "\<bar>z\<bar> < 2 powi (- 1 + 53)" using zb by simp
      show "- 1074 \<le> (- 1::int)" by simp
      show "- (2 powi 1024) < real_of_int (2 * k0) * 2 powi (- 1)" using kb by (simp add: abs_less_iff)
      show "real_of_int (2 * k0 + 1) * 2 powi (- 1) < 2 powi 1024" using kb by (simp add: abs_less_iff)
    qed
    then have "of_int k0 + 1 \<le> real_of_int (2 * k0 + 1) * 2 powi (- 1)"
      using cz by auto
    then show False by simp
  qed
  have k0: "k0 = 0"
  proof (rule ccontr)
    assume nz: "k0 \<noteq> 0"
    have yk: "of_int k0 \<le> y" and yk2: "y < of_int k0 + 1 / 2"
      using half k2 by (simp_all add: z_def)
    have y0: "y \<noteq> 0"
    proof
      assume "y = 0"
      then have "real_of_int k0 \<le> 0" and "0 < real_of_int k0 + 1 / 2" using yk yk2 by simp_all
      then have "k0 \<le> 0" and "- 1 < k0" by linarith+
      then show False using nz by simp
    qed
    define b where "b = binade y"
    have b1: "2 powi b \<le> \<bar>y\<bar>" and b2: "\<bar>y\<bar> < 2 powi (b + 1)"
      unfolding b_def using y0 by (rule binade_bounds)+
    have yhalf: "1 / 2 \<le> \<bar>y\<bar>"
    proof (cases "0 < k0")
      case True
      then have "1 \<le> real_of_int k0" by simp
      then show ?thesis using yk by linarith
    next
      case False
      then have "real_of_int k0 \<le> - 1" using nz by simp
      then show ?thesis using yk2 by linarith
    qed
    have "2 powi (- 1) \<le> \<bar>y\<bar>" using yhalf by simp
    then have bl: "- 1 \<le> b" unfolding b_def by (rule binade_ge)
    have "\<bar>y\<bar> < 2 powi 52" using yb by simp
    then have bh: "b < 52" unfolding b_def using y0 by (rule binade_less [rotated])
    define e where "e = b - 52"
    have e: "max (binade y - 52) (- 1074) = e" using bl by (simp add: e_def b_def)
    obtain N where N: "y = of_int N * 2 powi e" "\<bar>N\<bar> < 2 ^ 53"
      using double_repr [OF dy] unfolding e by blast
    have pe: "(0::real) < 2 powi e" by simp
    have hf: "(1 / 2 :: real) = 2 ^ nat (- 1 - e) * 2 powi e"
    proof -
      have "(2::real) powi (- 1) = 2 powi ((- 1 - e) + e)" by simp
      also have "\<dots> = 2 powi (- 1 - e) * 2 powi e" by (rule power_int_add) simp
      also have "(2::real) powi (- 1 - e) = 2 ^ nat (- 1 - e)"
        using bh by (simp add: power_int_def e_def)
      finally show ?thesis by simp
    qed
    define M where "M = N + 2 ^ nat (- 1 - e)"
    have zM: "z = of_int M * 2 powi e"
    proof -
      have "z = of_int N * 2 powi e + 2 ^ nat (- 1 - e) * 2 powi e"
        unfolding z_def using N(1) hf by simp
      then show ?thesis by (simp add: M_def algebra_simps)
    qed
    have zlt: "\<bar>z\<bar> < 2 powi (b + 1)"
    proof (cases "0 < k0")
      case True
      then have "1 \<le> real_of_int k0" by simp
      then have "2 powi 0 \<le> \<bar>y\<bar>" using yk by simp
      then have "0 \<le> b" unfolding b_def by (rule binade_ge)
      then have pw: "(2::real) powi (b + 1) = real_of_int (2 ^ nat (b + 1))"
        by (simp add: power_int_def)
      have "real_of_int k0 < real_of_int (2 ^ nat (b + 1))"
        using yk b2 unfolding pw by linarith
      then have "k0 < 2 ^ nat (b + 1)" by (simp only: of_int_less_iff)
      then have "k0 + 1 \<le> 2 ^ nat (b + 1)" by simp
      then have "real_of_int (k0 + 1) \<le> real_of_int (2 ^ nat (b + 1))"
        by (simp only: of_int_le_iff)
      then have "z < 2 powi (b + 1)" using k2 unfolding pw z_def by simp
      moreover have "0 \<le> z" using half \<open>1 \<le> real_of_int k0\<close> by linarith
      ultimately show ?thesis by simp
    next
      case False
      then have "real_of_int k0 \<le> - 1" using nz by simp
      then have "y < 0" and "z \<le> 0" using yk2 k2 by (simp_all add: z_def)
      then have "\<bar>z\<bar> \<le> \<bar>y\<bar>" by (simp add: z_def)
      then show ?thesis using b2 by linarith
    qed
    have "\<bar>z\<bar> = \<bar>real_of_int M\<bar> * 2 powi e" by (simp add: zM abs_mult)
    moreover have "(2::real) powi (b + 1) = 2 ^ 53 * 2 powi e"
      by (simp add: e_def power_int_diff power_int_add)
    ultimately have "\<bar>real_of_int M\<bar> * 2 powi e < 2 ^ 53 * 2 powi e" using zlt by simp
    then have "\<bar>real_of_int M\<bar> < 2 ^ 53" using pe by (simp only: mult_less_cancel_right_pos)
    then have Mb: "\<bar>M\<bar> < 2 ^ 53" by (rule of_int_abs_less_pow)
    have "(2::real) powi 52 \<le> 2 powi 1024" by (rule power_int_increasing) simp_all
    then have "\<bar>real_of_int M * 2 powi e\<bar> < 2 powi 1024" using zb unfolding zM by linarith
    then have "round64 (of_int M * 2 powi e) = Some (of_int M * 2 powi e)"
      by (intro round64_exact_gen Mb) (use bl in \<open>simp_all add: e_def\<close>)
    then have "z = of_int k0 + 1" using cz by (simp add: zM [symmetric])
    then show False using k2 by (simp add: z_def)
  qed
  have z1: "1 / 2 \<le> z" and z2: "z < 1" using half k2 by (simp_all add: k0 z_def)
  have bz: "binade z = - 1"
    by (rule binade_eq) (use z1 z2 in simp_all)
  have "round64 z = Some (of_int (rne (z / 2 powi (- 1 - 52))) * 2 powi (- 1 - 52))"
  proof -
    have "z \<noteq> 0" using z1 by simp
    moreover have "2 powi (- 1) \<le> \<bar>z\<bar>" using z1 by simp
    moreover have "\<bar>z\<bar> < 2 powi (- 1 + 1)" using z1 z2 by simp
    ultimately have r: "round64 z =
      (let y = of_int (rne (z / 2 powi (- 1 - 52))) * 2 powi (- 1 - 52)
       in if \<bar>y\<bar> < 2 powi 1024 then Some y else None)"
      by (rule round64_at) simp
    show ?thesis using cz unfolding r Let_def by (simp split: if_splits)
  qed
  then have "of_int (rne (z * 2 ^ 53)) / 2 ^ 53 = (1::real)"
    using cz by (simp add: k0)
  then have "real_of_int (rne (z * 2 ^ 53)) = 2 ^ 53" by (simp add: field_simps)
  then have "\<bar>z * 2 ^ 53 - 2 ^ 53\<bar> \<le> 1 / 2"
    using rne_near [of "z * 2 ^ 53"] by simp
  then have "2 ^ 53 - 1 / 2 \<le> z * 2 ^ 53" by linarith
  then have "1 - 1 / 2 ^ 54 \<le> z" by (simp add: field_simps)
  then show ?thesis using k0 by (simp add: z_def)
qed

subsection \<open>The wave on binary64 numbers\<close>

text \<open>
  \<open>triangleFunction64\<close> and \<open>setPosition64\<close>, step by step.
\<close>

lemma triangleFunction64_steps:
  assumes "mul64 2 t = Some a" and "div64 a p = Some b" and "add64 b (1 / 2) = Some c"
    and "\<lfloor>c\<rfloor> = k" and "div64 4 p = Some d" and "div64 p 2 = Some h"
    and "mul64 h (of_int k) = Some m" and "sub64 t m = Some s" and "mul64 d s = Some q"
    and "mul64 q ((- 1) powi k) = Some r"
  shows "triangleFunction64 t p = Some r"
  by (simp add: triangleFunction64_def assms)

lemma setPosition64_steps:
  assumes "add64 progression offset = Some a" and "triangleFunction64 a 1 = Some f"
    and "mul64 f 128 = Some w" and "add64 w 128 = Some pan"
    and "mul64 progression 4 = Some b" and "add64 b offset = Some c"
    and "triangleFunction64 c 1 = Some g" and "mul64 g 128 = Some v"
    and "add64 v 128 = Some tilt"
  shows "setPosition64 progression offset = (Some pan, Some tilt)"
  by (simp add: setPosition64_def assms)

lemma setPosition64_not_finite:
  assumes "add64 progression offset = Some a" and "mul64 2 a = None"
    and "mul64 progression 4 = None"
  shows "setPosition64 progression offset = (None, None)"
  by (simp add: setPosition64_def triangleFunction64_def assms)

lemma div64_4_1: "div64 4 1 = Some 4"
  unfolding div64_def using round64_grid [of 4 4 0] by simp

lemma div64_1_2: "div64 1 2 = Some (1 / 2)"
  unfolding div64_def using round64_grid [of "1 / 2" 1 1] by simp

lemma grid_bound_a:
  fixes n w :: int
  assumes "\<bar>n\<bar> \<le> 2 ^ 50" and "0 \<le> w" and "w \<le> 2 ^ 51"
  shows "\<bar>4 * n + w\<bar> < 2 ^ 53"
  using assms by (simp add: abs_less_iff abs_le_iff)

lemma grid_bound_b:
  fixes z w :: int
  assumes "\<bar>z\<bar> \<le> w" and "w \<le> 2 ^ 44"
  shows "\<bar>128 * z + 128 * w\<bar> < 2 ^ 53"
  using assms by (simp add: abs_less_iff abs_le_iff)

lemma grid_bound_c:
  fixes n w :: int
  assumes "\<bar>n\<bar> \<le> 2 ^ 47" and "0 \<le> w" and "w \<le> 2 ^ 44"
  shows "\<bar>n + w\<bar> \<le> 2 ^ 50"
  using assms by (simp add: abs_le_iff)

text \<open>
  On a multiple \<open>n / 2^j\<close> of \<open>2^-j\<close> with \<open>j \<le> 51\<close> and \<open>|n| \<le> 2^50\<close> no step of
  \<open>triangleFunction64\<close> rounds: the result is the value of the formula, again a multiple
  of \<open>2^-j\<close>.
\<close>

lemma triangleFunction64_grid:
  fixes n :: int and j :: nat
  assumes j: "j \<le> 51" and n: "\<bar>n\<bar> \<le> 2 ^ 50"
  shows "triangleFunction64 (of_int n / 2 ^ j) 1 = Some (triangleFunction (of_int n / 2 ^ j) 1) \<and>
         (\<exists>z::int. \<bar>z\<bar> \<le> 2 ^ j \<and> triangleFunction (of_int n / 2 ^ j) 1 = of_int z / 2 ^ j)"
proof -
  define t :: real where "t = of_int n / 2 ^ j"
  define k where "k = \<lfloor>2 * t + 1 / 2\<rfloor>"
  define z where "z = (4 * n - 2 * k * 2 ^ j) * (if even k then 1 else - 1)"
  have pj: "(0::real) < 2 ^ j" by simp
  have pj1: "(1::real) \<le> 2 ^ j" by simp
  have pjh: "(2::real) ^ j \<le> 2 ^ 51" by (rule power_increasing) (use j in simp_all)
  have pji: "(2::int) ^ j \<le> 2 ^ 51" by (rule power_increasing) (use j in simp_all)
  have nr: "\<bar>real_of_int n\<bar> \<le> 2 ^ 50"
  proof -
    have "real_of_int \<bar>n\<bar> \<le> real_of_int (2 ^ 50)" using n by (simp only: of_int_le_iff)
    then show ?thesis by simp
  qed
  have tf: "triangleFunction t 1 = 4 * (t - of_int k / 2) * (- 1) powi k"
    by (simp add: triangleFunction_def k_def Let_def)
  have "4 * (t - of_int k / 2) * (- 1) powi k = of_int z / 2 ^ j"
    unfolding z_def t_def by (simp add: minus_one_powi field_simps)
  then have fz: "triangleFunction t 1 = of_int z / 2 ^ j"
    by (simp only: tf)
  have "\<bar>triangleFunction t 1\<bar> \<le> 1" by (rule triangle_abs_le_1) simp
  then have "\<bar>real_of_int z\<bar> \<le> 2 ^ j" unfolding fz using pj by (simp add: field_simps)
  then have zb: "\<bar>z\<bar> \<le> 2 ^ j" by (rule of_int_abs_le_pow)
  have zr: "\<bar>z\<bar> < 2 ^ 53"
  proof -
    show ?thesis using zb pji by (simp add: abs_less_iff abs_le_iff)
  qed
  have k1: "of_int k \<le> 2 * t + 1 / 2" and k2: "2 * t + 1 / 2 < of_int k + 1"
    by (simp_all add: k_def)
  have tb: "\<bar>t\<bar> \<le> 2 ^ 50"
  proof -
    have "\<bar>t\<bar> = \<bar>real_of_int n\<bar> / 2 ^ j" by (simp add: t_def)
    also have "\<dots> \<le> \<bar>real_of_int n\<bar> / 1" using pj1 by (intro divide_left_mono) simp_all
    finally show ?thesis using nr by simp
  qed
  have "\<bar>real_of_int k\<bar> < 2 ^ 53" using k1 k2 tb by (simp add: abs_le_iff abs_less_iff)
  then have kb: "\<bar>k\<bar> < 2 ^ 53" by (rule of_int_abs_less_pow)
  have a: "mul64 2 t = Some (2 * t)"
    unfolding mul64_def
  proof (rule round64_grid)
    show "2 * t = real_of_int (2 * n) / 2 ^ j" by (simp add: t_def)
    show "\<bar>2 * n\<bar> < 2 ^ 53" using n by simp
    show "j \<le> 1074" using j by simp
  qed
  have b: "div64 (2 * t) 1 = Some (2 * t)"
    using a by (simp add: div64_def mul64_def)
  have c: "add64 (2 * t) (1 / 2) = Some (2 * t + 1 / 2)"
    unfolding add64_def
  proof (rule round64_grid)
    show "2 * t + 1 / 2 = real_of_int (4 * n + 2 ^ j) / 2 ^ (j + 1)"
      by (simp add: t_def field_simps)
    show "\<bar>4 * n + 2 ^ j\<bar> < 2 ^ 53" by (rule grid_bound_a [OF n _ pji]) simp
    show "j + 1 \<le> 1074" using j by simp
  qed
  have d: "div64 4 1 = Some 4"
    unfolding div64_def using round64_grid [of 4 4 0] by simp
  have h: "div64 1 2 = Some (1 / 2)"
    unfolding div64_def using round64_grid [of "1 / 2" 1 1] by simp
  have m: "mul64 (1 / 2) (of_int k) = Some (of_int k / 2)"
    unfolding mul64_def using round64_grid [of "of_int k / 2" k 1] kb by simp
  have s: "sub64 t (of_int k / 2) = Some (t - of_int k / 2)"
    unfolding sub64_def
  proof (rule round64_grid)
    show e: "t - of_int k / 2 = real_of_int (2 * n - k * 2 ^ j) / 2 ^ (j + 1)"
      by (simp add: t_def field_simps)
    have "\<bar>t - of_int k / 2\<bar> \<le> 1 / 4" using k1 k2 by linarith
    then have "\<bar>real_of_int (2 * n - k * 2 ^ j)\<bar> \<le> 2 ^ (j + 1) / 4"
      unfolding e by (simp add: field_simps)
    also have "\<dots> \<le> 2 ^ 51" using pjh by simp
    finally have "\<bar>real_of_int (2 * n - k * 2 ^ j)\<bar> < 2 ^ 53" by simp
    then show "\<bar>2 * n - k * 2 ^ j\<bar> < 2 ^ 53" by (rule of_int_abs_less_pow)
    show "j + 1 \<le> 1074" using j by simp
  qed
  have q: "mul64 4 (t - of_int k / 2) = Some (4 * (t - of_int k / 2))"
    unfolding mul64_def
  proof (rule round64_grid)
    show "4 * (t - of_int k / 2) = real_of_int (z * (if even k then 1 else - 1)) / 2 ^ j"
      by (simp add: z_def t_def field_simps)
    show "\<bar>z * (if even k then 1 else - 1)\<bar> < 2 ^ 53" using zr by (simp add: abs_mult)
    show "j \<le> 1074" using j by simp
  qed
  have r: "mul64 (4 * (t - of_int k / 2)) ((- 1) powi k) = Some (triangleFunction t 1)"
    unfolding mul64_def tf [symmetric]
  proof (rule round64_grid)
    show "triangleFunction t 1 = real_of_int z / 2 ^ j" by (rule fz)
    show "\<bar>z\<bar> < 2 ^ 53" by (rule zr)
    show "j \<le> 1074" using j by simp
  qed
  have "triangleFunction64 t 1 = Some (triangleFunction t 1)"
    by (rule triangleFunction64_steps [OF a b c k_def [symmetric] d h m s q r])
  then show ?thesis using fz zb unfolding t_def by blast
qed

lemma scaled64_grid:
  fixes z :: int and j :: nat
  assumes j: "j \<le> 44" and z: "\<bar>z\<bar> \<le> 2 ^ j" and f: "f = of_int z / 2 ^ j"
  shows "do { w \<leftarrow> mul64 f 128; add64 w 128 } = Some (f * 128 + 128)"
proof -
  have pw: "(2::int) ^ j \<le> 2 ^ 44" by (rule power_increasing) (use j in simp_all)
  have a: "mul64 f 128 = Some (f * 128)"
    unfolding mul64_def
  proof (rule round64_grid)
    show "f * 128 = real_of_int (128 * z) / 2 ^ j" by (simp add: f)
    show "\<bar>128 * z\<bar> < 2 ^ 53" using z pw by (simp add: abs_less_iff abs_le_iff)
    show "j \<le> 1074" using j by simp
  qed
  have b: "add64 (f * 128) 128 = Some (f * 128 + 128)"
    unfolding add64_def
  proof (rule round64_grid)
    show "f * 128 + 128 = real_of_int (128 * z + 128 * 2 ^ j) / 2 ^ j"
      by (simp add: f field_simps)
    show "\<bar>128 * z + 128 * 2 ^ j\<bar> < 2 ^ 53" by (rule grid_bound_b [OF z pw])
    show "j \<le> 1074" using j by simp
  qed
  show ?thesis by (simp add: a b)
qed

lemma setPosition64_grid:
  fixes n m :: int and j :: nat
  assumes j: "j \<le> 44" and n: "\<bar>n\<bar> \<le> 2 ^ 47" and m: "\<bar>m\<bar> \<le> 2 ^ 47"
  shows "setPosition64 (of_int n / 2 ^ j) (of_int m / 2 ^ j) =
           (Some (fst (setPosition (of_int n / 2 ^ j) (of_int m / 2 ^ j))),
            Some (snd (setPosition (of_int n / 2 ^ j) (of_int m / 2 ^ j))))"
proof -
  define pr :: real where "pr = of_int n / 2 ^ j"
  define off :: real where "off = of_int m / 2 ^ j"
  have j51: "j \<le> 51" using j by simp
  have e1: "pr + off = real_of_int (n + m) / 2 ^ j"
    by (simp add: pr_def off_def field_simps)
  have e2: "pr * 4 = real_of_int (4 * n) / 2 ^ j"
    by (simp add: pr_def)
  have e3: "pr * 4 + off = real_of_int (4 * n + m) / 2 ^ j"
    by (simp add: pr_def off_def field_simps)
  have a1: "add64 pr off = Some (pr + off)"
    unfolding add64_def using e1 by (rule round64_grid) (use n m j in simp_all)
  have a2: "mul64 pr 4 = Some (pr * 4)"
    unfolding mul64_def using e2 by (rule round64_grid) (use n j in simp_all)
  have a3: "add64 (pr * 4) off = Some (pr * 4 + off)"
    unfolding add64_def using e3 by (rule round64_grid) (use n m j in simp_all)
  have b1: "\<bar>n + m\<bar> \<le> 2 ^ 50" using n m by simp
  have b3: "\<bar>4 * n + m\<bar> \<le> 2 ^ 50" using n m by simp
  from triangleFunction64_grid [OF j51 b1] obtain z1 where
    f1: "triangleFunction64 (pr + off) 1 = Some (triangleFunction (pr + off) 1)"
    and z1: "\<bar>z1\<bar> \<le> 2 ^ j" "triangleFunction (pr + off) 1 = of_int z1 / 2 ^ j"
    unfolding e1 by blast
  from triangleFunction64_grid [OF j51 b3] obtain z3 where
    f3: "triangleFunction64 (pr * 4 + off) 1 = Some (triangleFunction (pr * 4 + off) 1)"
    and z3: "\<bar>z3\<bar> \<le> 2 ^ j" "triangleFunction (pr * 4 + off) 1 = of_int z3 / 2 ^ j"
    unfolding e3 by blast
  note s1 = scaled64_grid [OF j z1]
  note s3 = scaled64_grid [OF j z3]
  show ?thesis
    unfolding pr_def [symmetric] off_def [symmetric]
    by (simp add: setPosition64_def setPosition_def Let_def a1 a2 a3 f1 f3 s1 s3)
qed

lemma triangleFunction64_zero: "triangleFunction64 0 1 = Some 0"
  using triangleFunction64_grid [of 0 0] by (simp add: triangleFunction_def)

text \<open>
  On every binary64 number \<open>t\<close> of magnitude at most \<open>2^50\<close> the result is finite and
  within \<open>[-1, 1]\<close>. The sum \<open>2 t + 0.5\<close> may round, but the integer \<open>factor\<close> is the
  exact one or, just below 1, the next one, and then \<open>t - 0.5\<close> rounds to \<open>-1/4\<close>.
\<close>

lemma triangleFunction64_bounded:
  assumes dt: "round64 t = Some t" and tb: "\<bar>t\<bar> \<le> 2 ^ 50"
  shows "\<exists>f. triangleFunction64 t 1 = Some f \<and> - 1 \<le> f \<and> f \<le> 1"
proof -
  define y where "y = 2 * t"
  define z where "z = y + 1 / 2"
  define k0 where "k0 = \<lfloor>z\<rfloor>"
  have dy: "round64 y = Some y"
    unfolding y_def using dt by (rule double_times2) (use tb in simp)
  have yb: "\<bar>y\<bar> \<le> 2 ^ 51" using tb by (simp add: y_def)
  have a: "mul64 2 t = Some y" using dy by (simp add: mul64_def y_def)
  have b: "div64 y 1 = Some y" using dy by (simp add: div64_def)
  have k1: "of_int k0 \<le> z" and k2: "z < of_int k0 + 1" by (simp_all add: k0_def)
  have zb: "\<bar>z\<bar> < 2 ^ 52" using yb by (simp add: z_def abs_less_iff abs_le_iff)
  have kb0: "\<bar>real_of_int k0\<bar> < 2 ^ 52"
    using k1 k2 yb by (simp add: z_def abs_less_iff abs_le_iff)
  have "\<exists>c. round64 z = Some c \<and> real_of_int k0 * 2 powi 0 \<le> c \<and> c \<le> real_of_int (k0 + 1) * 2 powi 0"
  proof (rule round64_between)
    show "\<bar>z\<bar> < 2 powi (0 + 53)" using zb by simp
    show "- 1074 \<le> (0::int)" by simp
    show "real_of_int k0 * 2 powi 0 \<le> z" using k1 by simp
    show "z \<le> real_of_int (k0 + 1) * 2 powi 0" using k2 by simp
    show "- (2 powi 1024) < real_of_int k0 * 2 powi 0" using kb0 by (simp add: abs_less_iff)
    show "real_of_int (k0 + 1) * 2 powi 0 < 2 powi 1024" using kb0 by (simp add: abs_less_iff)
  qed
  then obtain c where cz: "round64 z = Some c" and c1: "of_int k0 \<le> c" and c2: "c \<le> of_int k0 + 1"
    by auto
  have c: "add64 y (1 / 2) = Some c" using cz by (simp add: add64_def z_def)
  define k where "k = \<lfloor>c\<rfloor>"
  have kc: "k = k0 \<or> (k = k0 + 1 \<and> c = of_int k0 + 1)"
  proof (cases "c = of_int k0 + 1")
    case True
    then have "c = of_int (k0 + 1)" by simp
    then have "k = k0 + 1" unfolding k_def by (simp only: floor_of_int)
    then show ?thesis using True by simp
  next
    case False
    then have "c < of_int k0 + 1" using c2 by simp
    then have "k = k0" unfolding k_def using c1 by (simp add: floor_unique)
    then show ?thesis by simp
  qed
  have kr: "\<bar>real_of_int k\<bar> < 2 ^ 53" using kc kb0 by (auto simp: abs_less_iff)
  then have kb: "\<bar>k\<bar> < 2 ^ 53" by (rule of_int_abs_less_pow)
  have m: "mul64 (1 / 2) (of_int k) = Some (of_int k / 2)"
    unfolding mul64_def using round64_grid [of "of_int k / 2" k 1] kb by simp
  have "\<exists>s. sub64 t (of_int k / 2) = Some s \<and> - (1 / 4) \<le> s \<and> s \<le> 1 / 4"
  proof (cases "k = k0")
    case True
    define x where "x = t - of_int k / 2"
    have x1: "- (1 / 4) \<le> x" and x2: "x \<le> 1 / 4"
      using k1 k2 by (simp_all add: x_def True z_def y_def)
    have "\<exists>s. round64 x = Some s \<and> real_of_int (- 1) * 2 powi (- 2) \<le> s \<and>
        s \<le> real_of_int 1 * 2 powi (- 2)"
    proof (rule round64_between)
      show "\<bar>x\<bar> < 2 powi (- 2 + 53)" using x1 x2 by (simp add: abs_less_iff)
      show "- 1074 \<le> (- 2::int)" by simp
      show "real_of_int (- 1) * 2 powi (- 2) \<le> x" using x1 by simp
      show "x \<le> real_of_int 1 * 2 powi (- 2)" using x2 by simp
      show "- (2 powi 1024) < real_of_int (- 1) * 2 powi (- 2)" by simp
      show "real_of_int 1 * 2 powi (- 2) < 2 powi 1024" by simp
    qed
    then show ?thesis by (simp add: sub64_def x_def)
  next
    case False
    then have k: "k = k0 + 1" and ck: "c = of_int k0 + 1" using kc by simp_all
    have "k0 = 0 \<and> 1 - 1 / 2 ^ 54 \<le> y + 1 / 2"
      using dy yb k1 [unfolded z_def] k2 [unfolded z_def] cz [unfolded z_def ck]
      by (rule round_up_to_integer)
    then have k00: "k0 = 0" and zl: "1 - 1 / 2 ^ 54 \<le> z" by (simp_all add: z_def)
    have x1: "- (1 / 4) - 1 / 2 ^ 55 \<le> t - of_int k / 2"
      using zl by (simp add: k k00 z_def y_def)
    have x2: "t - of_int k / 2 < - (1 / 4)"
      using k2 by (simp add: k k00 z_def y_def)
    have "round64 (t - of_int k / 2) = Some (- (1 / 4))" using x1 x2 by (rule round64_quarter)
    then show ?thesis by (simp add: sub64_def)
  qed
  then obtain s where s: "sub64 t (of_int k / 2) = Some s" and s1: "- (1 / 4) \<le> s" and s2: "s \<le> 1 / 4"
    by blast
  have "\<exists>q. round64 (4 * s) = Some q \<and> real_of_int (- 1) * 2 powi 0 \<le> q \<and> q \<le> real_of_int 1 * 2 powi 0"
  proof (rule round64_between)
    show "\<bar>4 * s\<bar> < 2 powi (0 + 53)" using s1 s2 by (simp add: abs_less_iff)
    show "- 1074 \<le> (0::int)" by simp
    show "real_of_int (- 1) * 2 powi 0 \<le> 4 * s" using s1 by simp
    show "4 * s \<le> real_of_int 1 * 2 powi 0" using s2 by simp
    show "- (2 powi 1024) < real_of_int (- 1) * 2 powi 0" by simp
    show "real_of_int 1 * 2 powi 0 < 2 powi 1024" by simp
  qed
  then obtain q where q: "mul64 4 s = Some q" and q1: "- 1 \<le> q" and q2: "q \<le> 1"
    by (auto simp: mul64_def)
  define g :: real where "g = (- 1) powi k"
  have g: "g = 1 \<or> g = - 1" by (simp add: g_def minus_one_powi)
  have "\<exists>r. round64 (q * g) = Some r \<and> real_of_int (- 1) * 2 powi 0 \<le> r \<and> r \<le> real_of_int 1 * 2 powi 0"
  proof (rule round64_between)
    show "\<bar>q * g\<bar> < 2 powi (0 + 53)" using q1 q2 g by (auto simp: abs_less_iff)
    show "- 1074 \<le> (0::int)" by simp
    show "real_of_int (- 1) * 2 powi 0 \<le> q * g" using q1 q2 g by auto
    show "q * g \<le> real_of_int 1 * 2 powi 0" using q1 q2 g by auto
    show "- (2 powi 1024) < real_of_int (- 1) * 2 powi 0" by simp
    show "real_of_int 1 * 2 powi 0 < 2 powi 1024" by simp
  qed
  then obtain r where r: "mul64 q ((- 1) powi k) = Some r" and r1: "- 1 \<le> r" and r2: "r \<le> 1"
    by (auto simp: mul64_def g_def)
  have "triangleFunction64 t 1 = Some r"
    by (rule triangleFunction64_steps [OF a b c k_def [symmetric] div64_4_1 div64_1_2 m s q r])
  then show ?thesis using r1 r2 by blast
qed

lemma scaled64_bounded:
  assumes "- 1 \<le> f" and "f \<le> 1"
  shows "\<exists>v. do { w \<leftarrow> mul64 f 128; add64 w 128 } = Some v \<and> 0 \<le> v \<and> v \<le> 256"
proof -
  have "\<exists>w. round64 (f * 128) = Some w \<and> round64 w = Some w \<and>
      real_of_int (- 128) \<le> w \<and> w \<le> real_of_int 128"
    by (rule round64_within) (use assms in simp_all)
  then obtain w where w: "mul64 f 128 = Some w" "- 128 \<le> w" "w \<le> 128"
    by (auto simp: mul64_def)
  have "\<exists>v. round64 (w + 128) = Some v \<and> round64 v = Some v \<and>
      real_of_int 0 \<le> v \<and> v \<le> real_of_int 256"
    by (rule round64_within) (use w in simp_all)
  then obtain v where v: "add64 w 128 = Some v" "0 \<le> v" "v \<le> 256"
    by (auto simp: add64_def)
  show ?thesis using w(1) v by simp
qed

lemma setPosition64_bounded:
  assumes dp: "round64 progression = Some progression" and pb: "\<bar>progression\<bar> \<le> 2 ^ 47"
    and od: "round64 offset = Some offset" and ob: "\<bar>offset\<bar> \<le> 2 ^ 47"
  shows "\<exists>pan tilt. setPosition64 progression offset = (Some pan, Some tilt) \<and>
           0 \<le> pan \<and> pan \<le> 256 \<and> 0 \<le> tilt \<and> tilt \<le> 256"
proof -
  have "\<exists>a. round64 (progression + offset) = Some a \<and> round64 a = Some a \<and>
      real_of_int (- (2 ^ 48)) \<le> a \<and> a \<le> real_of_int (2 ^ 48)"
    by (rule round64_within) (use pb ob in \<open>simp_all add: abs_le_iff\<close>)
  then obtain a where a: "add64 progression offset = Some a" "round64 a = Some a"
    "\<bar>a\<bar> \<le> 2 ^ 50"
    by (auto simp: add64_def abs_le_iff)
  obtain f where f: "triangleFunction64 a 1 = Some f" "- 1 \<le> f" "f \<le> 1"
    using triangleFunction64_bounded [OF a(2,3)] by blast
  obtain pan where pan: "do { w \<leftarrow> mul64 f 128; add64 w 128 } = Some pan" "0 \<le> pan" "pan \<le> 256"
    using scaled64_bounded [OF f(2,3)] by blast
  have "\<exists>b. round64 (progression * 4) = Some b \<and> round64 b = Some b \<and>
      real_of_int (- (2 ^ 49)) \<le> b \<and> b \<le> real_of_int (2 ^ 49)"
    by (rule round64_within) (use pb in \<open>simp_all add: abs_le_iff\<close>)
  then obtain b where b: "mul64 progression 4 = Some b" "- (2 ^ 49) \<le> b" "b \<le> 2 ^ 49"
    by (auto simp: mul64_def)
  have "\<exists>c. round64 (b + offset) = Some c \<and> round64 c = Some c \<and>
      real_of_int (- (2 ^ 50)) \<le> c \<and> c \<le> real_of_int (2 ^ 50)"
    by (rule round64_within) (use b ob in \<open>simp_all add: abs_le_iff\<close>)
  then obtain c where c: "add64 b offset = Some c" "round64 c = Some c" "\<bar>c\<bar> \<le> 2 ^ 50"
    by (auto simp: add64_def abs_le_iff)
  obtain g where g: "triangleFunction64 c 1 = Some g" "- 1 \<le> g" "g \<le> 1"
    using triangleFunction64_bounded [OF c(2,3)] by blast
  obtain tilt where tilt: "do { w \<leftarrow> mul64 g 128; add64 w 128 } = Some tilt" "0 \<le> tilt" "tilt \<le> 256"
    using scaled64_bounded [OF g(2,3)] by blast
  have "setPosition64 progression offset = (Some pan, Some tilt)"
    using pan(1) tilt(1) by (simp add: setPosition64_def a(1) f(1) b(1) c(1) g(1))
  then show ?thesis using pan(2,3) tilt(2,3) by blast
qed

text \<open>
  Three runs in which a step rounds or overflows. At \<open>t = 2^51 + 1/2\<close> the sum
  \<open>2 t + 0.5 = 2^52 + 1.5\<close> rounds to \<open>2^52 + 2\<close>; at \<open>t = 0.1\<close> (the binary64 number
  \<open>3602879701896397 / 2^55\<close>) the sum \<open>t + 1\<close> rounds; at \<open>2^1023\<close> the product \<open>2 t\<close> is
  infinite.
\<close>

lemma triangleFunction64_half_ulp: "triangleFunction64 (2 ^ 51 + 1 / 2) 1 = Some (- 2)"
proof (rule triangleFunction64_steps [where a = "2 ^ 52 + 1" and b = "2 ^ 52 + 1"
      and c = "2 ^ 52 + 2" and k = "2 ^ 52 + 2" and d = 4 and h = "1 / 2"
      and m = "2 ^ 51 + 1" and s = "- (1 / 2)" and q = "- 2"])
  show "mul64 2 (2 ^ 51 + 1 / 2) = Some (2 ^ 52 + 1)"
    unfolding mul64_def using round64_grid [of "2 ^ 52 + 1" "2 ^ 52 + 1" 0] by simp
  show "div64 (2 ^ 52 + 1) 1 = Some (2 ^ 52 + 1)"
    unfolding div64_def using round64_grid [of "2 ^ 52 + 1" "2 ^ 52 + 1" 0] by simp
  show "add64 (2 ^ 52 + 1) (1 / 2) = Some (2 ^ 52 + 2)"
    unfolding add64_def by (subst round64_at [of _ 52]) (simp_all add: rne_def)
  show "\<lfloor>2 ^ 52 + 2 :: real\<rfloor> = 2 ^ 52 + 2" by simp
  show "div64 4 1 = Some 4" by (rule div64_4_1)
  show "div64 1 2 = Some (1 / 2)" by (rule div64_1_2)
  show "mul64 (1 / 2) (real_of_int (2 ^ 52 + 2)) = Some (2 ^ 51 + 1)"
    unfolding mul64_def using round64_grid [of "2 ^ 51 + 1" "2 ^ 51 + 1" 0] by simp
  show "sub64 (2 ^ 51 + 1 / 2) (2 ^ 51 + 1) = Some (- (1 / 2))"
    unfolding sub64_def using round64_grid [of "- (1 / 2)" "- 1" 1] by simp
  show "mul64 4 (- (1 / 2)) = Some (- 2)"
    unfolding mul64_def using round64_grid [of "- 2" "- 2" 0] by simp
  show "mul64 (- 2) ((- 1) powi (2 ^ 52 + 2)) = Some (- 2)"
    unfolding mul64_def using round64_grid [of "- 2" "- 2" 0] by (simp add: minus_one_powi)
qed

lemma triangleFunction64_large: "triangleFunction64 (2 ^ 53 + 2) 1 = Some 0"
proof (rule triangleFunction64_steps [where a = "2 ^ 54 + 4" and b = "2 ^ 54 + 4"
      and c = "2 ^ 54 + 4" and k = "2 ^ 54 + 4" and d = 4 and h = "1 / 2"
      and m = "2 ^ 53 + 2" and s = 0 and q = 0])
  show "mul64 2 (2 ^ 53 + 2) = Some (2 ^ 54 + 4)"
    unfolding mul64_def using round64_exact [of "2 ^ 52 + 1" 2] by simp
  show "div64 (2 ^ 54 + 4) 1 = Some (2 ^ 54 + 4)"
    unfolding div64_def using round64_exact [of "2 ^ 52 + 1" 2] by simp
  show "add64 (2 ^ 54 + 4) (1 / 2) = Some (2 ^ 54 + 4)"
    unfolding add64_def by (subst round64_at [of _ 54]) (simp_all add: rne_def)
  show "\<lfloor>2 ^ 54 + 4 :: real\<rfloor> = 2 ^ 54 + 4" by simp
  show "div64 4 1 = Some 4" by (rule div64_4_1)
  show "div64 1 2 = Some (1 / 2)" by (rule div64_1_2)
  show "mul64 (1 / 2) (real_of_int (2 ^ 54 + 4)) = Some (2 ^ 53 + 2)"
    unfolding mul64_def using round64_exact [of "2 ^ 52 + 1" 1] by simp
  show "sub64 (2 ^ 53 + 2) (2 ^ 53 + 2) = Some 0"
    by (simp add: sub64_def round64_def)
  show "mul64 4 0 = Some 0" by (simp add: mul64_def round64_def)
  show "mul64 0 ((- 1) powi (2 ^ 54 + 4)) = Some 0" by (simp add: mul64_def round64_def)
qed

lemma setPosition64_half_ulp:
  "setPosition64 (2 ^ 51 + 1 / 2) 0 = (Some (- 128), Some 128)"
proof (rule setPosition64_steps [where a = "2 ^ 51 + 1 / 2" and f = "- 2" and w = "- 256"
      and b = "2 ^ 53 + 2" and c = "2 ^ 53 + 2" and g = 0 and v = 0])
  show "add64 (2 ^ 51 + 1 / 2) 0 = Some (2 ^ 51 + 1 / 2)"
    unfolding add64_def using round64_grid [of "2 ^ 51 + 1 / 2" "2 ^ 52 + 1" 1] by simp
  show "triangleFunction64 (2 ^ 51 + 1 / 2) 1 = Some (- 2)" by (rule triangleFunction64_half_ulp)
  show "mul64 (- 2) 128 = Some (- 256)"
    unfolding mul64_def using round64_grid [of "- 256" "- 256" 0] by simp
  show "add64 (- 256) 128 = Some (- 128)"
    unfolding add64_def using round64_grid [of "- 128" "- 128" 0] by simp
  show "mul64 (2 ^ 51 + 1 / 2) 4 = Some (2 ^ 53 + 2)"
    unfolding mul64_def using round64_exact [of "2 ^ 52 + 1" 1] by simp
  show "add64 (2 ^ 53 + 2) 0 = Some (2 ^ 53 + 2)"
    unfolding add64_def using round64_exact [of "2 ^ 52 + 1" 1] by simp
  show "triangleFunction64 (2 ^ 53 + 2) 1 = Some 0" by (rule triangleFunction64_large)
  show "mul64 0 128 = Some 0" by (simp add: mul64_def round64_def)
  show "add64 0 128 = Some 128"
    unfolding add64_def using round64_grid [of 128 128 0] by simp
qed

lemma round64_overflow: "round64 (2 ^ 1024) = None"
  by (subst round64_at [of _ 1024]) (simp_all add: rne_def)

lemma setPosition64_overflow: "setPosition64 (2 ^ 1023) 0 = (None, None)"
proof (rule setPosition64_not_finite [where a = "2 ^ 1023"])
  show "add64 (2 ^ 1023) 0 = Some (2 ^ 1023)"
    unfolding add64_def using round64_exact [of "2 ^ 52" 971] by simp
  show "mul64 2 (2 ^ 1023) = None"
    unfolding mul64_def using round64_overflow by simp
  show "mul64 (2 ^ 1023) 4 = None"
    unfolding mul64_def by (subst round64_at [of _ 1025]) (simp_all add: rne_def)
qed

lemma tenth_is_double:
  "round64 (3602879701896397 / 2 ^ 55) = Some (3602879701896397 / 2 ^ 55)"
  by (rule round64_grid [of _ 3602879701896397 55]) simp_all

lemma tenth_plus_one: "add64 (3602879701896397 / 2 ^ 55) 1 = Some (2476979795053773 / 2 ^ 51)"
  unfolding add64_def by (subst round64_at [of _ 0]) (simp_all add: rne_def)

lemma triangleFunction64_tenth:
  "triangleFunction64 (3602879701896397 / 2 ^ 55) 1 = Some (3602879701896397 / 2 ^ 53)"
proof (rule triangleFunction64_steps [where a = "3602879701896397 / 2 ^ 54"
      and b = "3602879701896397 / 2 ^ 54" and c = "3152519739159347 / 2 ^ 52" and k = 0
      and d = 4 and h = "1 / 2" and m = 0 and s = "3602879701896397 / 2 ^ 55"
      and q = "3602879701896397 / 2 ^ 53"])
  show "mul64 2 (3602879701896397 / 2 ^ 55) = Some (3602879701896397 / 2 ^ 54)"
    unfolding mul64_def
    using round64_grid [of "3602879701896397 / 2 ^ 54" 3602879701896397 54] by simp
  show "div64 (3602879701896397 / 2 ^ 54) 1 = Some (3602879701896397 / 2 ^ 54)"
    unfolding div64_def
    using round64_grid [of "3602879701896397 / 2 ^ 54" 3602879701896397 54] by simp
  show "add64 (3602879701896397 / 2 ^ 54) (1 / 2) = Some (3152519739159347 / 2 ^ 52)"
    unfolding add64_def by (subst round64_at [of _ "- 1"]) (simp_all add: rne_def)
  show "\<lfloor>3152519739159347 / 2 ^ 52 :: real\<rfloor> = 0" by simp
  show "div64 4 1 = Some 4" by (rule div64_4_1)
  show "div64 1 2 = Some (1 / 2)" by (rule div64_1_2)
  show "mul64 (1 / 2) (real_of_int 0) = Some 0" by (simp add: mul64_def round64_def)
  show "sub64 (3602879701896397 / 2 ^ 55) 0 = Some (3602879701896397 / 2 ^ 55)"
    unfolding sub64_def using tenth_is_double by simp
  show "mul64 4 (3602879701896397 / 2 ^ 55) = Some (3602879701896397 / 2 ^ 53)"
    unfolding mul64_def
    using round64_grid [of "3602879701896397 / 2 ^ 53" 3602879701896397 53] by simp
  show "mul64 (3602879701896397 / 2 ^ 53) ((- 1) powi 0) = Some (3602879701896397 / 2 ^ 53)"
    unfolding mul64_def
    using round64_grid [of "3602879701896397 / 2 ^ 53" 3602879701896397 53] by simp
qed

lemma triangleFunction64_tenth_shifted:
  "triangleFunction64 (2476979795053773 / 2 ^ 51) 1 = Some (225179981368525 / 2 ^ 49)"
proof (rule triangleFunction64_steps [where a = "2476979795053773 / 2 ^ 50"
      and b = "2476979795053773 / 2 ^ 50" and c = "3039929748475085 / 2 ^ 50" and k = 2
      and d = 4 and h = "1 / 2" and m = 1 and s = "225179981368525 / 2 ^ 51"
      and q = "225179981368525 / 2 ^ 49"])
  show "mul64 2 (2476979795053773 / 2 ^ 51) = Some (2476979795053773 / 2 ^ 50)"
    unfolding mul64_def
    using round64_grid [of "2476979795053773 / 2 ^ 50" 2476979795053773 50] by simp
  show "div64 (2476979795053773 / 2 ^ 50) 1 = Some (2476979795053773 / 2 ^ 50)"
    unfolding div64_def
    using round64_grid [of "2476979795053773 / 2 ^ 50" 2476979795053773 50] by simp
  show "add64 (2476979795053773 / 2 ^ 50) (1 / 2) = Some (3039929748475085 / 2 ^ 50)"
    unfolding add64_def
    using round64_grid [of "3039929748475085 / 2 ^ 50" 3039929748475085 50] by simp
  show "\<lfloor>3039929748475085 / 2 ^ 50 :: real\<rfloor> = 2" by simp
  show "div64 4 1 = Some 4" by (rule div64_4_1)
  show "div64 1 2 = Some (1 / 2)" by (rule div64_1_2)
  show "mul64 (1 / 2) (real_of_int 2) = Some 1"
    unfolding mul64_def using round64_grid [of 1 1 0] by simp
  show "sub64 (2476979795053773 / 2 ^ 51) 1 = Some (225179981368525 / 2 ^ 51)"
    unfolding sub64_def
    using round64_grid [of "225179981368525 / 2 ^ 51" 225179981368525 51] by simp
  show "mul64 4 (225179981368525 / 2 ^ 51) = Some (225179981368525 / 2 ^ 49)"
    unfolding mul64_def
    using round64_grid [of "225179981368525 / 2 ^ 49" 225179981368525 49] by simp
  show "mul64 (225179981368525 / 2 ^ 49) ((- 1) powi 2) = Some (225179981368525 / 2 ^ 49)"
    unfolding mul64_def
    using round64_grid [of "225179981368525 / 2 ^ 49" 225179981368525 49] by simp
qed

text \<open>
  Claim C4, as the code has it, with the period 1 that \<open>setPosition\<close> uses. For every
  binary64 number \<open>t\<close> of magnitude at most \<open>2^50\<close> the wave \<open>f(t)\<close> that \<open>triangleFunction\<close>
  computes is a finite number with \<open>-1 \<le> f(t) \<le> 1\<close>, and \<open>f(0) = 0\<close>; consequently, for
  every binary64 progression and offset of magnitude at most \<open>2^47\<close>, the pan and tilt
  that \<open>setPosition\<close> produces (\<open>f * 128 + 128\<close>) are finite and lie in \<open>[0, 256]\<close>. The
  period holds where no step rounds: for \<open>t = n / 2^j\<close> with \<open>j \<le> 44\<close> and \<open>|n| \<le> 2^47\<close> the
  program computes \<open>t + 1\<close> exactly and \<open>f(t + 1) = f(t)\<close>, the exact value of the formula.
\<close>

theorem triangleFunction64_bounded_periodic:
  fixes n :: int and j :: nat
  assumes "round64 t = Some t" and "\<bar>t\<bar> \<le> 2 ^ 50"
    and "round64 progression = Some progression" and "\<bar>progression\<bar> \<le> 2 ^ 47"
    and "round64 offset = Some offset" and "\<bar>offset\<bar> \<le> 2 ^ 47"
    and "j \<le> 44" and "\<bar>n\<bar> \<le> 2 ^ 47"
  shows "(\<exists>f. triangleFunction64 t 1 = Some f \<and> - 1 \<le> f \<and> f \<le> 1) \<and>
         triangleFunction64 0 1 = Some 0 \<and>
         (\<exists>pan tilt. setPosition64 progression offset = (Some pan, Some tilt) \<and>
            0 \<le> pan \<and> pan \<le> 256 \<and> 0 \<le> tilt \<and> tilt \<le> 256) \<and>
         add64 (of_int n / 2 ^ j) 1 = Some (of_int n / 2 ^ j + 1) \<and>
         triangleFunction64 (of_int n / 2 ^ j + 1) 1 = triangleFunction64 (of_int n / 2 ^ j) 1 \<and>
         triangleFunction64 (of_int n / 2 ^ j) 1 = Some (triangleFunction (of_int n / 2 ^ j) 1)"
proof -
  define u :: real where "u = of_int n / 2 ^ j"
  have j51: "j \<le> 51" using assms(7) by simp
  have pw: "(2::int) ^ j \<le> 2 ^ 44" by (rule power_increasing) (use assms(7) in simp_all)
  have n50: "\<bar>n\<bar> \<le> 2 ^ 50" using assms(8) by simp
  have s50: "\<bar>n + 2 ^ j\<bar> \<le> 2 ^ 50" by (rule grid_bound_c [OF assms(8) _ pw]) simp
  have u1: "u + 1 = of_int (n + 2 ^ j) / 2 ^ j" by (simp add: u_def field_simps)
  have ex: "triangleFunction64 u 1 = Some (triangleFunction u 1)"
    unfolding u_def using triangleFunction64_grid [OF j51 n50] by blast
  have ad: "add64 u 1 = Some (u + 1)"
    unfolding add64_def using u1
  proof (rule round64_grid)
    show "\<bar>n + 2 ^ j\<bar> < 2 ^ 53" using s50 by simp
    show "j \<le> 1074" using assms(7) by simp
  qed
  have "triangleFunction64 (u + 1) 1 = Some (triangleFunction (u + 1) 1)"
    unfolding u1 using triangleFunction64_grid [OF j51 s50] by blast
  also have "triangleFunction (u + 1) 1 = triangleFunction u 1"
    by (rule triangle_shift_period) simp
  finally have per: "triangleFunction64 (u + 1) 1 = triangleFunction64 u 1"
    by (simp only: ex)
  note bnd = triangleFunction64_bounded [OF assms(1,2)]
  note rng = setPosition64_bounded [OF assms(3,4,5,6)]
  show ?thesis
    using bnd triangleFunction64_zero rng ad per ex unfolding u_def by (intro conjI)
qed

theorem triangleFunction64_bounded_periodic_witness:
  "round64 (3 / 4) = Some (3 / 4) \<and> \<bar>3 / 4 :: real\<bar> \<le> 2 ^ 50 \<and> \<bar>3 / 4 :: real\<bar> \<le> 2 ^ 47 \<and>
   round64 0 = Some 0 \<and> \<bar>0 :: real\<bar> \<le> 2 ^ 47 \<and> (2::nat) \<le> 44 \<and> \<bar>3::int\<bar> \<le> 2 ^ 47 \<and>
   triangleFunction64 (3 / 4) 1 = Some (- 1) \<and>
   triangleFunction64 0 1 = Some 0 \<and>
   setPosition64 (3 / 4) 0 = (Some 0, Some 128) \<and>
   add64 (3 / 4) 1 = Some (7 / 4) \<and>
   triangleFunction64 (7 / 4) 1 = Some (- 1)"
proof -
  have d: "round64 (3 / 4) = Some (3 / 4)"
    using round64_grid [of "3 / 4" 3 2] by simp
  have z: "round64 0 = Some 0" by (simp add: round64_def)
  have b: "\<bar>3 / 4 :: real\<bar> \<le> 2 ^ 50" "\<bar>3 / 4 :: real\<bar> \<le> 2 ^ 47" "\<bar>0 :: real\<bar> \<le> 2 ^ 47"
    by simp_all
  have h: "(2::nat) \<le> 44" "\<bar>3::int\<bar> \<le> 2 ^ 47" by simp_all
  have v: "triangleFunction (3 / 4) 1 = - 1"
    by (simp add: triangleFunction_def)
  have s: "setPosition64 (3 / 4) 0 = (Some 0, Some 128)"
    using setPosition64_grid [of 2 3 0] by (simp add: setPosition_def triangleFunction_def)
  note inst = triangleFunction64_bounded_periodic [OF d b(1) d b(2) z b(3) h]
  show ?thesis
    using d z b h s inst by (simp add: v)
qed

text \<open>
  The claim as stated, for all \<open>t\<close>, progression and offset, fails on binary64 numbers.
  At the binary64 number \<open>t = 2^51 + 1/2\<close> the program computes \<open>f(t) = -2\<close>, and
  \<open>setPosition\<close> with this progression (offset 0) a pan of \<open>-128\<close>. For \<open>t = 0.1\<close> the
  program computes \<open>t + 1 = 1.1\<close> and \<open>f(1.1) \<noteq> f(0.1)\<close>. With the progression \<open>2^1023\<close>
  pan and tilt are not finite numbers.
\<close>

theorem triangleFunction64_counterexample:
  "round64 (2 ^ 51 + 1 / 2) = Some (2 ^ 51 + 1 / 2) \<and>
   triangleFunction64 (2 ^ 51 + 1 / 2) 1 = Some (- 2) \<and>
   setPosition64 (2 ^ 51 + 1 / 2) 0 = (Some (- 128), Some 128) \<and>
   round64 (3602879701896397 / 2 ^ 55) = Some (3602879701896397 / 2 ^ 55) \<and>
   add64 (3602879701896397 / 2 ^ 55) 1 = Some (2476979795053773 / 2 ^ 51) \<and>
   triangleFunction64 (3602879701896397 / 2 ^ 55) 1 = Some (3602879701896397 / 2 ^ 53) \<and>
   triangleFunction64 (2476979795053773 / 2 ^ 51) 1 = Some (3602879701896400 / 2 ^ 53) \<and>
   round64 (2 ^ 1023) = Some (2 ^ 1023) \<and>
   setPosition64 (2 ^ 1023) 0 = (None, None)"
proof -
  have a: "round64 (2 ^ 51 + 1 / 2) = Some (2 ^ 51 + 1 / 2)"
    using round64_grid [of "2 ^ 51 + 1 / 2" "2 ^ 52 + 1" 1] by simp
  have b: "round64 (2 ^ 1023) = Some (2 ^ 1023)"
    using round64_exact [of "2 ^ 52" 971] by simp
  have c: "triangleFunction64 (2476979795053773 / 2 ^ 51) 1 = Some (3602879701896400 / 2 ^ 53)"
    using triangleFunction64_tenth_shifted by simp
  show ?thesis
    using a triangleFunction64_half_ulp setPosition64_half_ulp tenth_is_double tenth_plus_one
      triangleFunction64_tenth c b setPosition64_overflow
    by (intro conjI)
qed

section \<open>Properties of the handler manager\<close>

subsection \<open>Registering and removing\<close>

lemma constructor_name_registerEntity [simp]:
  "constructor_name (registerEntity h e) = constructor_name h"
  by (simp add: registerEntity_def)

lemma constructor_name_removeEntity [simp]:
  "constructor_name (removeEntity h e) = constructor_name h"
  by (simp add: removeEntity_def)

lemma registered_removeEntity:
  "registered (removeEntity h e) x = (registered h x \<and> ident x \<noteq> ident e)"
  by (auto simp: registered_def removeEntity_def same_entity_def)

lemma registered_registerEntity:
  "registered (registerEntity h e) x = (registered h x \<or> ident x = ident e)"
  by (auto simp: registered_def registerEntity_def same_entity_def)

lemma fst_register_matching:
  "fst (register_matching n socket e hs srv) =
     map (\<lambda>h. if constructor_name h = n then registerEntity h e else h) hs"
  by (induction hs arbitrary: srv) (simp_all add: Let_def case_prod_beta)

lemma map_of_put_handlers_same:
  "map_of reg c = Some hs \<Longrightarrow> map_of (put_handlers reg c hs') c = Some hs'"
  by (induction reg) (auto simp: put_handlers_def split: if_splits)

lemma map_of_put_handlers_other:
  "c' \<noteq> c \<Longrightarrow> map_of (put_handlers reg c hs') c' = map_of reg c'"
  by (induction reg) (auto simp: put_handlers_def)

lemma map_of_put_handlers_None:
  "map_of reg c = None \<Longrightarrow> put_handlers reg c hs' = reg"
  by (induction reg) (auto simp: put_handlers_def split: if_splits)

lemma set_put_handlers:
  "(c', hs') \<in> set (put_handlers reg c new) \<Longrightarrow>
     (c' = c \<and> hs' = new) \<or> (c' \<noteq> c \<and> (c', hs') \<in> set reg)"
  by (induction reg) (auto simp: put_handlers_def split: if_splits)

lemma keys_put_handlers [simp]: "map fst (put_handlers reg c new) = map fst reg"
  by (induction reg) (auto simp: put_handlers_def)

lemma handlers_registerHandler:
  "handlers (registerHandler hm e n) =
     put_handlers (handlers hm) (kind e) (rebind e n (getHandlers hm (Some (kind e))))"
proof (cases "n = ''''")
  case True
  then show ?thesis by (simp add: registerHandler_def rebind_def Let_def)
next
  case False
  let ?socket = "socket_get (io hm) (case socketId e of None \<Rightarrow> [] | Some k \<Rightarrow> k)"
  let ?hs1 = "map (\<lambda>handler. removeEntity handler e) (getHandlers hm (Some (kind e)))"
  obtain hs2 srv where rm: "register_matching n ?socket e ?hs1 (io hm) = (hs2, srv)"
    by (cases "register_matching n ?socket e ?hs1 (io hm)")
  have "hs2 = fst (register_matching n ?socket e ?hs1 (io hm))" by (simp add: rm)
  then have hs2: "hs2 = rebind e n (getHandlers hm (Some (kind e)))"
    using False by (simp add: fst_register_matching rebind_def comp_def)
  have "handlers (registerHandler hm e n) = put_handlers (handlers hm) (kind e) hs2"
    using False rm by (simp add: registerHandler_def Let_def)
  then show ?thesis by (simp only: hs2)
qed

lemma names_rebind [simp]: "map constructor_name (rebind e n hs) = map constructor_name hs"
  by (simp add: rebind_def comp_def)

lemma holders_rebind_self:
  "map constructor_name (filter (\<lambda>h. registered h e) (rebind e n hs)) =
     (if n = '''' then [] else filter (\<lambda>m. m = n) (map constructor_name hs))"
  by (induction hs) (auto simp: rebind_def registered_registerEntity registered_removeEntity)

lemma length_holders_rebind_other:
  "ident x \<noteq> ident e \<Longrightarrow>
   length (filter (\<lambda>h. registered h x) (rebind e n hs)) =
   length (filter (\<lambda>h. registered h x) hs)"
  by (induction hs) (auto simp: rebind_def registered_registerEntity registered_removeEntity)

lemma filter_eq_distinct:
  "distinct xs \<Longrightarrow> n \<in> set xs \<Longrightarrow> filter (\<lambda>m. m = n) xs = [n]"
  by (induction xs) (auto simp: filter_empty_conv)

lemma length_filter_le_1:
  "distinct xs \<Longrightarrow> length (filter (\<lambda>m. m = n) xs) \<le> 1"
  by (induction xs) (auto simp: filter_empty_conv)

lemma holders_cong_ident:
  "ident x = ident y \<Longrightarrow> holders hs x = holders hs y"
  by (simp add: holders_def registered_def same_entity_def)

lemma at_most_one_any:
  assumes "at_most_one reg" and "(c, hs) \<in> set reg"
  shows "length (holders hs x) \<le> 1"
proof (cases "holders hs x")
  case Nil
  then show ?thesis by simp
next
  case (Cons h rest)
  then have "h \<in> set (holders hs x)" by simp
  then have h: "h \<in> set hs" and r: "registered h x" by (simp_all add: holders_def)
  from r have "\<exists>y \<in> set (entities h). ident y = ident x"
    unfolding registered_def same_entity_def .
  then obtain y where y: "y \<in> set (entities h)" and yx: "ident y = ident x" ..
  have eq: "holders hs x = holders hs y" using yx [symmetric] by (rule holders_cong_ident)
  have "\<forall>h \<in> set hs. \<forall>e \<in> set (entities h). length (holders hs e) \<le> 1"
    using assms unfolding at_most_one_def by fast
  then have "length (holders hs y) \<le> 1" using h y by fast
  then show ?thesis by (simp only: eq)
qed

lemma at_most_one_iff:
  "at_most_one reg = (\<forall>(c, hs) \<in> set reg. \<forall>x. length (holders hs x) \<le> 1)"
proof
  assume "at_most_one reg"
  then show "\<forall>(c, hs) \<in> set reg. \<forall>x. length (holders hs x) \<le> 1"
    using at_most_one_any by blast
next
  assume "\<forall>(c, hs) \<in> set reg. \<forall>x. length (holders hs x) \<le> 1"
  then show "at_most_one reg" unfolding at_most_one_def by blast
qed

lemma at_most_one_rebind:
  assumes d: "distinct (map constructor_name hs)"
    and a: "\<forall>x. length (holders hs x) \<le> 1"
  shows "length (holders (rebind e n hs) x) \<le> 1"
proof (cases "ident x = ident e")
  case True
  then have "holders (rebind e n hs) x = holders (rebind e n hs) e"
    by (rule holders_cong_ident)
  then have "length (holders (rebind e n hs) x) =
      length (map constructor_name (filter (\<lambda>h. registered h e) (rebind e n hs)))"
    by (simp add: holders_def)
  also have "\<dots> \<le> 1"
    unfolding holders_rebind_self using length_filter_le_1 [OF d, of n] by simp
  finally show ?thesis .
next
  case False
  then show ?thesis
    using a by (simp add: holders_def length_holders_rebind_other)
qed

lemma registry_ok_put:
  assumes "registry_ok reg" and "map_of reg c = Some hs"
    and "map constructor_name new = map constructor_name hs"
  shows "registry_ok (put_handlers reg c new)"
proof -
  have "(c, hs) \<in> set reg" using assms(2) by (rule map_of_SomeD)
  then have "distinct (map constructor_name hs)"
    using assms(1) by (auto simp: registry_ok_def)
  then have "distinct (map constructor_name new)" by (simp add: assms(3))
  then show ?thesis
    using assms(1) by (auto simp: registry_ok_def dest!: set_put_handlers)
qed

lemma registerHandler_at_most_one:
  assumes ok: "registry_ok (handlers hm)" and a: "at_most_one (handlers hm)"
  shows "at_most_one (handlers (registerHandler hm e n))"
proof (cases "map_of (handlers hm) (kind e)")
  case None
  then have "getHandlers hm (Some (kind e)) = []" by (simp add: getHandlers_def)
  then show ?thesis
    using a None by (simp add: handlers_registerHandler rebind_def map_of_put_handlers_None)
next
  case (Some hs)
  then have mem: "(kind e, hs) \<in> set (handlers hm)" by (rule map_of_SomeD)
  have g: "getHandlers hm (Some (kind e)) = hs" using Some by (simp add: getHandlers_def)
  have d: "distinct (map constructor_name hs)"
    using ok mem by (auto simp: registry_ok_def)
  have old: "\<forall>x. length (holders hs x) \<le> 1"
    using at_most_one_any [OF a mem] by simp
  have new: "\<And>x. length (holders (rebind e n hs) x) \<le> 1"
    using d old by (rule at_most_one_rebind)
  show ?thesis
    unfolding at_most_one_iff handlers_registerHandler g
  proof (clarify)
    fix c' hs' x
    assume "(c', hs') \<in> set (put_handlers (handlers hm) (kind e) (rebind e n hs))"
    then consider "hs' = rebind e n hs" | "(c', hs') \<in> set (handlers hm)"
      using set_put_handlers by blast
    then show "length (holders hs' x) \<le> 1"
    proof cases
      case 1
      then show ?thesis using new by simp
    next
      case 2
      then show ?thesis using at_most_one_any [OF a] by simp
    qed
  qed
qed

lemma registerHandler_registry_ok:
  assumes "registry_ok (handlers hm)"
  shows "registry_ok (handlers (registerHandler hm e n))"
proof (cases "map_of (handlers hm) (kind e)")
  case None
  then show ?thesis
    using assms by (simp add: handlers_registerHandler map_of_put_handlers_None)
next
  case (Some hs)
  then have "getHandlers hm (Some (kind e)) = hs" by (simp add: getHandlers_def)
  then show ?thesis
    using registry_ok_put [OF assms Some, of "rebind e n hs"]
    by (simp add: handlers_registerHandler)
qed

subsection \<open>Boot restore\<close>

lemma names_restoreHandlers [simp]:
  "map constructor_name (restoreHandlers r hs) = map constructor_name hs"
  by (simp add: restoreHandlers_def comp_def)

lemma length_holders_restore_other:
  "ident x \<noteq> ident r \<Longrightarrow>
   length (holders (restoreHandlers r hs) x) = length (holders hs x)"
  by (induction hs) (auto simp: holders_def restoreHandlers_def registered_registerEntity)

lemma holders_restore_self:
  "\<forall>h \<in> set hs. registered h r \<longrightarrow> constructor_name h = currentHandler r \<Longrightarrow>
   map constructor_name (holders (restoreHandlers r hs) r) =
     filter (\<lambda>m. m = currentHandler r) (map constructor_name hs)"
  by (induction hs) (auto simp: holders_def restoreHandlers_def registered_registerEntity)

lemma pk_unique_same:
  assumes "pk_unique db" and "r \<in> set db" and "r' \<in> set db"
    and "kind r' = kind r" and "ident r' = ident r"
  shows "r' = r"
proof -
  have "inj_on (\<lambda>r. (kind r, ident r)) (set db)"
    using assms(1) unfolding pk_unique_def by (simp add: distinct_map)
  then show ?thesis using assms(2-5) by (auto dest: inj_onD)
qed

lemma in_restoreHandlers:
  "h' \<in> set (restoreHandlers r hs) \<Longrightarrow>
   \<exists>h \<in> set hs. h' = (if constructor_name h = currentHandler r then registerEntity h r else h)"
  by (auto simp: restoreHandlers_def)

lemma at_most_one_restore:
  assumes ok: "registry_ok reg" and a: "at_most_one reg" and ag: "bindings_agree reg db"
    and r: "r \<in> set db" and m: "map_of reg (kind r) = Some hs"
  shows "at_most_one (put_handlers reg (kind r) (restoreHandlers r hs))"
proof -
  have mem: "(kind r, hs) \<in> set reg" using m by (rule map_of_SomeD)
  have d: "distinct (map constructor_name hs)"
    using ok mem by (auto simp: registry_ok_def)
  have agr: "\<forall>h \<in> set hs. registered h r \<longrightarrow> constructor_name h = currentHandler r"
    using ag r mem unfolding bindings_agree_def by fast
  have new: "length (holders (restoreHandlers r hs) x) \<le> 1" for x
  proof (cases "ident x = ident r")
    case True
    then have "holders (restoreHandlers r hs) x = holders (restoreHandlers r hs) r"
      by (rule holders_cong_ident)
    then have "length (holders (restoreHandlers r hs) x) =
        length (map constructor_name (holders (restoreHandlers r hs) r))" by simp
    also have "\<dots> \<le> 1"
      unfolding holders_restore_self [OF agr] using d by (rule length_filter_le_1)
    finally show ?thesis .
  next
    case False
    then show ?thesis
      using at_most_one_any [OF a mem, of x] by (simp add: length_holders_restore_other)
  qed
  show ?thesis
    unfolding at_most_one_iff
  proof (clarify)
    fix c' hs' x
    assume "(c', hs') \<in> set (put_handlers reg (kind r) (restoreHandlers r hs))"
    then consider "hs' = restoreHandlers r hs" | "(c', hs') \<in> set reg"
      using set_put_handlers by blast
    then show "length (holders hs' x) \<le> 1"
    proof cases
      case 1
      then show ?thesis using new by simp
    next
      case 2
      then show ?thesis using at_most_one_any [OF a] by simp
    qed
  qed
qed

lemma bindings_agree_restore:
  assumes ag: "bindings_agree reg db" and pk: "pk_unique db"
    and r: "r \<in> set db" and m: "map_of reg (kind r) = Some hs"
  shows "bindings_agree (put_handlers reg (kind r) (restoreHandlers r hs)) db"
  unfolding bindings_agree_def
proof (intro ballI, clarify)
  fix r' hs' h'
  assume r': "r' \<in> set db"
    and in_new: "(kind r', hs') \<in> set (put_handlers reg (kind r) (restoreHandlers r hs))"
    and h': "h' \<in> set hs'" and reg': "registered h' r'"
  have mem: "(kind r, hs) \<in> set reg" using m by (rule map_of_SomeD)
  from in_new consider
    (new) "kind r' = kind r" "hs' = restoreHandlers r hs" | (old) "(kind r', hs') \<in> set reg"
    using set_put_handlers by blast
  then show "constructor_name h' = currentHandler r'"
  proof cases
    case old
    then show ?thesis using ag r' h' reg' unfolding bindings_agree_def by fast
  next
    case new
    then obtain h where h: "h \<in> set hs"
      and eq: "h' = (if constructor_name h = currentHandler r then registerEntity h r else h)"
      using h' in_restoreHandlers by blast
    show ?thesis
    proof (cases "registered h r'")
      case True
      have "constructor_name h = currentHandler r'"
        using ag r' mem new(1) h True unfolding bindings_agree_def by fastforce
      then show ?thesis by (simp add: eq)
    next
      case False
      then have "constructor_name h = currentHandler r" and "ident r' = ident r"
        using reg' by (auto simp: eq registered_registerEntity split: if_splits)
      moreover have "r' = r" using pk r r' new(1) \<open>ident r' = ident r\<close> by (rule pk_unique_same)
      ultimately show ?thesis by (simp add: eq)
    qed
  qed
qed

lemma restore_inv_step:
  assumes "restore_inv db reg" and "pk_unique db" and "r \<in> set db"
    and "map_of reg (kind r) = Some hs"
  shows "restore_inv db (put_handlers reg (kind r) (restoreHandlers r hs))"
proof -
  have ok: "registry_ok reg" and a: "at_most_one reg" and ag: "bindings_agree reg db"
    using assms(1) by (simp_all add: restore_inv_def)
  have "registry_ok (put_handlers reg (kind r) (restoreHandlers r hs))"
    using ok assms(4) by (rule registry_ok_put) simp
  moreover have "at_most_one (put_handlers reg (kind r) (restoreHandlers r hs))"
    using ok a ag assms(3,4) by (rule at_most_one_restore)
  moreover have "bindings_agree (put_handlers reg (kind r) (restoreHandlers r hs)) db"
    using ag assms(2,3,4) by (rule bindings_agree_restore)
  ultimately show ?thesis by (simp add: restore_inv_def)
qed

lemma restore_instances_inv:
  "restore_inv db reg \<Longrightarrow> pk_unique db \<Longrightarrow> set rs \<subseteq> set db \<Longrightarrow>
   restore_instances rs reg = Inr reg' \<Longrightarrow>
   restore_inv db reg' \<and> map fst reg' = map fst reg"
proof (induction rs arbitrary: reg)
  case Nil
  then show ?case by simp
next
  case (Cons r rs)
  from Cons.prems(4) obtain hs where m: "map_of reg (kind r) = Some hs"
    by (cases "map_of reg (kind r)") simp_all
  let ?reg1 = "put_handlers reg (kind r) (restoreHandlers r hs)"
  have r: "r \<in> set db" and rs: "set rs \<subseteq> set db" using Cons.prems(3) by simp_all
  have inv1: "restore_inv db ?reg1"
    using Cons.prems(1,2) r m by (rule restore_inv_step)
  have rest: "restore_instances rs ?reg1 = Inr reg'" using Cons.prems(4) m by simp
  from Cons.IH [OF inv1 Cons.prems(2) rs rest] show ?case by simp
qed

lemma restore_keys_inv:
  "restore_inv db reg \<Longrightarrow> pk_unique db \<Longrightarrow> restore_keys cs db reg = Inr reg' \<Longrightarrow>
   restore_inv db reg' \<and> map fst reg' = map fst reg"
proof (induction cs arbitrary: reg)
  case Nil
  then show ?case by simp
next
  case (Cons c cs)
  from Cons.prems(3) obtain reg1 where
    one: "restore_instances (find_all db c) reg = Inr reg1" and
    rest: "restore_keys cs db reg1 = Inr reg'"
    by (cases "restore_instances (find_all db c) reg") simp_all
  have sub: "set (find_all db c) \<subseteq> set db" by (auto simp: find_all_def)
  from restore_instances_inv [OF Cons.prems(1,2) sub one]
  have inv1: "restore_inv db reg1" and k1: "map fst reg1 = map fst reg" by simp_all
  from Cons.IH [OF inv1 Cons.prems(2) rest] k1 show ?case by simp
qed

text \<open>The restore never throws "Unknown entity": every row it finds is of a key of the map.\<close>

lemma restore_instances_total:
  "\<forall>r \<in> set rs. kind r \<in> fst ` set reg \<Longrightarrow>
   \<exists>reg'. restore_instances rs reg = Inr reg' \<and> map fst reg' = map fst reg"
proof (induction rs arbitrary: reg)
  case Nil
  then show ?case by simp
next
  case (Cons r rs)
  then have "kind r \<in> fst ` set reg" by simp
  then obtain hs where m: "map_of reg (kind r) = Some hs"
    by (cases "map_of reg (kind r)") (auto simp: map_of_eq_None_iff)
  let ?reg1 = "put_handlers reg (kind r) (restoreHandlers r hs)"
  have k: "fst ` set ?reg1 = fst ` set reg"
    using keys_put_handlers [of reg "kind r" "restoreHandlers r hs"]
    by (metis set_map)
  have "\<forall>r \<in> set rs. kind r \<in> fst ` set ?reg1" using Cons.prems by (simp add: k)
  from Cons.IH [OF this] show ?case using m by simp
qed

lemma restore_keys_total:
  "set cs \<subseteq> fst ` set reg \<Longrightarrow>
   \<exists>reg'. restore_keys cs db reg = Inr reg' \<and> map fst reg' = map fst reg"
proof (induction cs arbitrary: reg)
  case Nil
  then show ?case by simp
next
  case (Cons c cs)
  have "\<forall>r \<in> set (find_all db c). kind r \<in> fst ` set reg"
    using Cons.prems by (auto simp: find_all_def)
  from restore_instances_total [OF this] obtain reg1 where
    one: "restore_instances (find_all db c) reg = Inr reg1" and k1: "map fst reg1 = map fst reg"
    by blast
  have "fst ` set reg1 = fst ` set reg" using k1 by (metis set_map)
  then have "set cs \<subseteq> fst ` set reg1" using Cons.prems by simp
  from Cons.IH [OF this] obtain reg' where
    "restore_keys cs db reg1 = Inr reg'" and "map fst reg' = map fst reg1" by blast
  then show ?case using one k1 by simp
qed

lemma init_returns:
  assumes "\<not> initialized hm"
  shows "\<exists>reg. init hm db em =
           Inr (hm\<lparr>handlers := reg\<rparr>, em @ [(''connect'', OnConnect), (''disconnect'', OnDisconnect)]) \<and>
           restore_keys (map fst (handlers hm)) db (handlers hm) = Inr reg"
proof -
  have "set (map fst (handlers hm)) \<subseteq> fst ` set (handlers hm)" by simp
  from restore_keys_total [OF this] obtain reg where
    "restore_keys (map fst (handlers hm)) db (handlers hm) = Inr reg" by blast
  then show ?thesis using assms by (simp add: init_def on_def)
qed

lemma init_Inr_D:
  assumes "init hm db em = Inr (hm', em')"
  shows "\<not> initialized hm \<and> initialized hm' = initialized hm \<and> io hm' = io hm \<and>
         em' = em @ [(''connect'', OnConnect), (''disconnect'', OnDisconnect)] \<and>
         restore_keys (map fst (handlers hm)) db (handlers hm) = Inr (handlers hm')"
  using assms by (auto simp: init_def on_def split: if_splits sum.splits)

lemma init_inv:
  assumes "restore_inv db (handlers hm)" and "pk_unique db" and "init hm db em = Inr (hm', em')"
  shows "restore_inv db (handlers hm')"
proof -
  have "restore_keys (map fst (handlers hm)) db (handlers hm) = Inr (handlers hm')"
    using init_Inr_D [OF assms(3)] by simp
  from restore_keys_inv [OF assms(1,2) this] show ?thesis by simp
qed

lemma handlers_new:
  "handlers (HandlerManager_new srv) =
     [(Audio, [new_handler ''SimpleAudioHandler'']),
      (LightsGroup, [new_handler ''RandomEffectsHandler'', new_handler ''SetEffectsHandler'',
                     new_handler ''DevelopEffectsHandler'']),
      (Screen, [])]"
  by (simp add: HandlerManager_new_def map_set_def)

lemma restore_inv_new: "restore_inv db (handlers (HandlerManager_new srv))"
  by (simp add: restore_inv_def handlers_new registry_ok_def at_most_one_def bindings_agree_def
      new_handler_def registered_def)

subsection \<open>The walk of the listeners\<close>

lemma connect_body_notify: "connect_body user sid = notify_body ''handler_set'' (Some sid) user sid"
  by (rule ext)+ (simp add: connect_body_def notify_body_def Let_def split: prod.splits)

lemma disconnect_body_notify: "disconnect_body user sid = notify_body ''handler_remove'' None user sid"
  by (rule ext)+ (simp add: disconnect_body_def notify_body_def Let_def split: prod.splits)

lemma after_walk_Nil [simp]: "after_walk ev v sid [] w = w"
  by (cases w) (simp add: after_walk_def pushes_def)

lemma after_walk_append:
  "after_walk ev v sid (ms @ ms') w = after_walk ev v sid ms' (after_walk ev v sid ms w)"
  by (cases w) (simp add: after_walk_def pushes_def)

lemma after_walk_single:
  "after_walk ev v sid [(hn, e)] (srv, db) =
     (emit (socket_get srv sid) ev (Some hn) srv, save db (e\<lparr>socketId := v\<rparr>))"
  by (simp add: after_walk_def pushes_def emit_def socket_get_def)

lemma notify_body_hit:
  "name e = user_name user \<Longrightarrow>
   notify_body ev v user sid hn e (srv, db) =
     (touch user v e, after_walk ev v sid [(hn, e)] (srv, db))"
  by (simp add: notify_body_def touch_def after_walk_single)

lemma notify_body_miss:
  "name e \<noteq> user_name user \<Longrightarrow> notify_body ev v user sid hn e w = (touch user v e, w)"
  by (cases w) (simp add: notify_body_def touch_def)

lemma forEach_entity_notify:
  "forEach_entity (notify_body ev v user sid hn) es w =
     (map (touch user v) es,
      after_walk ev v sid (map (\<lambda>e. (hn, e)) (filter (\<lambda>e. name e = user_name user) es)) w)"
proof (induction es arbitrary: w)
  case Nil
  then show ?case by simp
next
  case (Cons e es)
  obtain srv db where w: "w = (srv, db)" by (cases w)
  show ?case
  proof (cases "name e = user_name user")
    case True
    let ?ms = "map (\<lambda>e. (hn, e)) (filter (\<lambda>e. name e = user_name user) es)"
    have "forEach_entity (notify_body ev v user sid hn) (e # es) w =
        (touch user v e # map (touch user v) es,
         after_walk ev v sid ?ms (after_walk ev v sid [(hn, e)] w))"
      using True by (simp add: w notify_body_hit Cons.IH)
    also have "after_walk ev v sid ?ms (after_walk ev v sid [(hn, e)] w) =
        after_walk ev v sid ((hn, e) # ?ms) w"
      using after_walk_append [of ev v sid "[(hn, e)]" ?ms w] by simp
    finally show ?thesis using True by simp
  next
    case False
    then show ?thesis by (simp add: notify_body_miss Cons.IH)
  qed
qed

lemma forEach_handler_notify:
  "forEach_handler (notify_body ev v user sid) hs w =
     (map (\<lambda>h. h\<lparr>entities := map (touch user v) (entities h)\<rparr>) hs,
      after_walk ev v sid (concat (map (matches_handler user) hs)) w)"
proof (induction hs arbitrary: w)
  case Nil
  then show ?case by simp
next
  case (Cons h hs)
  show ?case
    by (simp add: forEach_entity_notify Cons.IH after_walk_append matches_handler_def)
qed

lemma forEach_handlers_notify:
  "forEach_handlers (notify_body ev v user sid) reg w =
     (map_entities (touch user v) reg, after_walk ev v sid (matches user reg) w)"
proof (induction reg arbitrary: w)
  case Nil
  then show ?case by (simp add: map_entities_def matches_def)
next
  case (Cons p reg)
  obtain c hs where p: "p = (c, hs)" by (cases p)
  have "forEach_handlers (notify_body ev v user sid) ((c, hs) # reg) w =
      ((c, map (\<lambda>h. h\<lparr>entities := map (touch user v) (entities h)\<rparr>) hs) #
         map_entities (touch user v) reg,
       after_walk ev v sid (matches user reg)
         (after_walk ev v sid (concat (map (matches_handler user) hs)) w))"
    by (simp add: forEach_handler_notify Cons.IH)
  then show ?case
    by (simp add: p map_entities_def matches_def after_walk_append)
qed

lemma run_body_notify:
  "run_body (notify_body ev v user sid) (hm, db) =
     (hm\<lparr>handlers := map_entities (touch user v) (handlers hm),
         io := fst (after_walk ev v sid (matches user (handlers hm)) (io hm, db))\<rparr>,
      snd (after_walk ev v sid (matches user (handlers hm)) (io hm, db)))"
  by (simp add: run_body_def forEach_handlers_notify split: prod.splits)

subsection \<open>Saving rows\<close>

lemma written_self: "written x x"
  by (simp add: written_def)

lemma written_stored_over: "same_row r x \<Longrightarrow> written (stored_over r x) x"
  by (auto simp: written_def stored_over_def same_row_def split: option.splits)

lemma find_append_case:
  "find P (xs @ ys) = (case find P xs of None \<Rightarrow> find P ys | Some x \<Rightarrow> Some x)"
  by (induction xs) simp_all

lemma key_stored_over [simp]:
  "kind (stored_over r e) = kind e" "ident (stored_over r e) = ident e"
  by (simp_all add: stored_over_def split: option.splits)

lemma lookup_row_save:
  "lookup_row (save db e) c i =
     (if c = kind e \<and> i = ident e
      then Some (case lookup_row db c i of None \<Rightarrow> e | Some r \<Rightarrow> stored_over r e)
      else lookup_row db c i)"
proof (cases "\<exists>r \<in> set db. same_row r e")
  case False
  then have "lookup_row db (kind e) (ident e) = None"
    by (auto simp: lookup_row_def find_None_iff same_row_def)
  then show ?thesis
    using False by (auto simp: save_def lookup_row_def find_append_case split: option.splits)
next
  case True
  then have some: "find (\<lambda>r. kind r = kind e \<and> ident r = ident e) db \<noteq> None"
    by (auto simp: find_None_iff same_row_def)
  have "find (\<lambda>r. kind r = c \<and> ident r = i) (map (\<lambda>r. if same_row r e then stored_over r e else r) xs) =
      (if c = kind e \<and> i = ident e
       then (case find (\<lambda>r. kind r = c \<and> ident r = i) xs of
               None \<Rightarrow> None | Some r \<Rightarrow> Some (stored_over r e))
       else find (\<lambda>r. kind r = c \<and> ident r = i) xs)" for xs
    by (induction xs) (auto simp: same_row_def)
  then show ?thesis
    using True some by (auto simp: save_def lookup_row_def split: option.splits)
qed

lemma lookup_row_save_written:
  "\<exists>r. lookup_row (save db x) (kind x) (ident x) = Some r \<and> written r x"
proof (cases "lookup_row db (kind x) (ident x)")
  case None
  then show ?thesis by (simp add: lookup_row_save written_self)
next
  case (Some r)
  then have "same_row r x"
    unfolding lookup_row_def same_row_def by (auto dest: find_Some_iff [THEN iffD1])
  then show ?thesis using Some by (simp add: lookup_row_save written_stored_over)
qed

lemma lookup_row_foldl_save_other:
  "\<forall>x \<in> set xs. \<not> (kind x = c \<and> ident x = i) \<Longrightarrow>
   lookup_row (foldl save db xs) c i = lookup_row db c i"
  by (induction xs rule: rev_induct) (auto simp: lookup_row_save)

lemma lookup_row_foldl_save_hit:
  "\<exists>x \<in> set xs. kind x = c \<and> ident x = i \<Longrightarrow>
   \<exists>x \<in> set xs. \<exists>r. lookup_row (foldl save db xs) c i = Some r \<and> written r x"
proof (induction xs rule: rev_induct)
  case Nil
  then show ?case by simp
next
  case (snoc x xs)
  show ?case
  proof (cases "kind x = c \<and> ident x = i")
    case True
    then show ?thesis
      using lookup_row_save_written [of "foldl save db xs" x] by auto
  next
    case False
    then have "\<exists>x \<in> set xs. kind x = c \<and> ident x = i" using snoc.prems by auto
    from snoc.IH [OF this] show ?thesis using False by (auto simp: lookup_row_save)
  qed
qed

subsection \<open>The handler map keeps its keys and names\<close>

lemma registry_ok_names:
  "handler_names reg = handler_names reg' \<Longrightarrow> registry_ok reg' \<Longrightarrow> registry_ok reg"
proof -
  assume eq: "handler_names reg = handler_names reg'" and ok: "registry_ok reg'"
  have k: "map fst reg = map fst (handler_names reg)" for reg :: registry
    by (induction reg) (auto simp: handler_names_def)
  have n: "(\<forall>(c, hs) \<in> set reg. distinct (map constructor_name hs)) =
      (\<forall>(c, ns) \<in> set (handler_names reg). distinct ns)" for reg :: registry
    by (induction reg) (auto simp: handler_names_def)
  show ?thesis using ok unfolding registry_ok_def k [of reg] k [of reg'] n [of reg] n [of reg'] eq .
qed

lemma registry_ok_new: "registry_ok (handlers (HandlerManager_new srv))"
  by (simp add: handlers_new registry_ok_def new_handler_def)

lemma handler_names_put:
  assumes "distinct (map fst reg)" and "map_of reg c = Some hs"
    and "map constructor_name new = map constructor_name hs"
  shows "handler_names (put_handlers reg c new) = handler_names reg"
proof -
  have "(k, v) \<in> set reg \<Longrightarrow> k = c \<Longrightarrow> v = hs" for k v
    using assms(1,2) by (metis map_of_is_SomeI option.inject)
  then have "\<forall>(k, v) \<in> set reg. k = c \<longrightarrow> map constructor_name new = map constructor_name v"
    using assms(3) by auto
  then show ?thesis
    unfolding handler_names_def put_handlers_def by (induction reg) auto
qed

lemma handler_names_registerHandler:
  assumes "distinct (map fst (handlers hm))"
  shows "handler_names (handlers (registerHandler hm e n)) = handler_names (handlers hm)"
proof (cases "map_of (handlers hm) (kind e)")
  case None
  then show ?thesis by (simp add: handlers_registerHandler map_of_put_handlers_None)
next
  case (Some hs)
  then have "getHandlers hm (Some (kind e)) = hs" by (simp add: getHandlers_def)
  then show ?thesis
    using handler_names_put [OF assms Some, of "rebind e n hs"]
    by (simp add: handlers_registerHandler)
qed

lemma handler_names_restore_instances:
  "distinct (map fst reg) \<Longrightarrow> restore_instances rs reg = Inr reg' \<Longrightarrow>
   handler_names reg' = handler_names reg"
proof (induction rs arbitrary: reg)
  case Nil
  then show ?case by simp
next
  case (Cons r rs)
  from Cons.prems(2) obtain hs where m: "map_of reg (kind r) = Some hs"
    by (cases "map_of reg (kind r)") simp_all
  let ?reg1 = "put_handlers reg (kind r) (restoreHandlers r hs)"
  have d1: "distinct (map fst ?reg1)" using Cons.prems(1) by simp
  have "restore_instances rs ?reg1 = Inr reg'" using Cons.prems(2) m by simp
  from Cons.IH [OF d1 this] show ?case
    using handler_names_put [OF Cons.prems(1) m, of "restoreHandlers r hs"] by simp
qed

lemma keys_handler_names: "map fst (handler_names reg) = map fst reg"
  by (induction reg) (auto simp: handler_names_def)

lemma handler_names_restore_keys:
  "distinct (map fst reg) \<Longrightarrow> restore_keys cs db reg = Inr reg' \<Longrightarrow>
   handler_names reg' = handler_names reg"
proof (induction cs arbitrary: reg)
  case Nil
  then show ?case by simp
next
  case (Cons c cs)
  from Cons.prems(2) obtain reg1 where
    one: "restore_instances (find_all db c) reg = Inr reg1" and
    rest: "restore_keys cs db reg1 = Inr reg'"
    by (cases "restore_instances (find_all db c) reg") simp_all
  have n1: "handler_names reg1 = handler_names reg"
    using Cons.prems(1) one by (rule handler_names_restore_instances)
  then have "map fst reg1 = map fst reg" by (metis keys_handler_names)
  then have "distinct (map fst reg1)" using Cons.prems(1) by simp
  from Cons.IH [OF this rest] n1 show ?case by simp
qed

lemma handler_names_init:
  assumes "distinct (map fst (handlers hm))" and "init hm db em = Inr (hm', em')"
  shows "handler_names (handlers hm') = handler_names (handlers hm)"
proof -
  have "restore_keys (map fst (handlers hm)) db (handlers hm) = Inr (handlers hm')"
    using init_Inr_D [OF assms(2)] by simp
  with assms(1) show ?thesis by (rule handler_names_restore_keys)
qed

lemma handler_names_map_entities [simp]:
  "handler_names (map_entities f reg) = handler_names reg"
  by (induction reg) (auto simp: handler_names_def map_entities_def comp_def)

lemma run_listener_handlers:
  "handlers (fst (run_listener l user sid (hm, db))) =
     map_entities (touch user (case l of OnConnect \<Rightarrow> Some sid | OnDisconnect \<Rightarrow> None))
       (handlers hm)"
  by (cases l) (simp_all add: connect_body_notify disconnect_body_notify run_body_notify)

lemma handler_names_run_listener:
  "handler_names (handlers (fst (run_listener l user sid (hm, db)))) = handler_names (handlers hm)"
  by (simp add: run_listener_handlers)

text \<open>The listeners change no binding: an entity keeps its id, so it keeps its holders.\<close>

lemma ident_touch [simp]: "ident (touch user v e) = ident e"
  by (simp add: touch_def)

lemma registered_touched [simp]:
  "registered (h\<lparr>entities := map (touch user v) (entities h)\<rparr>) x = registered h x"
  by (auto simp: registered_def same_entity_def)

lemma length_holders_touched:
  "length (holders (map (\<lambda>h. h\<lparr>entities := map (touch user v) (entities h)\<rparr>) hs) x) =
   length (holders hs x)"
  by (induction hs) (simp_all add: holders_def)

lemma at_most_one_map_entities:
  assumes "at_most_one reg"
  shows "at_most_one (map_entities (touch user v) reg)"
  unfolding at_most_one_iff
proof (clarify)
  fix c hs' x
  assume "(c, hs') \<in> set (map_entities (touch user v) reg)"
  then obtain hs where "(c, hs) \<in> set reg"
    and "hs' = map (\<lambda>h. h\<lparr>entities := map (touch user v) (entities h)\<rparr>) hs"
    by (auto simp: map_entities_def)
  then show "length (holders hs' x) \<le> 1"
    using at_most_one_any [OF assms, of c hs x] by (simp add: length_holders_touched)
qed

lemma run_listener_at_most_one:
  "at_most_one (handlers hm) \<Longrightarrow>
   at_most_one (handlers (fst (run_listener l user sid (hm, db))))"
  by (simp add: run_listener_handlers at_most_one_map_entities)

subsection \<open>The small installation\<close>

lemma venue_boot:
  "init (HandlerManager_new venue_server) venue_db [] = Inr (venue_manager, venue_emitter)"
  by (simp add: init_def handlers_new HandlerManager_new_def map_set_def venue_db_def
      find_all_def stage_lights_def bar_audio_def wall_screen_def restoreHandlers_def
      put_handlers_def new_handler_def registerEntity_def registered_def on_def
      venue_manager_def venue_emitter_def)

lemma venue_lights_handlers:
  "map_of (handlers venue_manager) (kind stage_lights) =
     Some [\<lparr>constructor_name = ''RandomEffectsHandler'', entities = [stage_lights]\<rparr>,
           \<lparr>constructor_name = ''SetEffectsHandler'', entities = []\<rparr>,
           \<lparr>constructor_name = ''DevelopEffectsHandler'', entities = []\<rparr>]"
  by (simp add: venue_manager_def stage_lights_def)

subsection \<open>Claims about the bindings\<close>

text \<open>
  Claim C1. Let \<open>e\<close> be an entity of a registered category, that is, \<open>_handlers\<close> has
  a handler list \<open>hs\<close> for its class, whose handlers have different names (as those
  the constructor creates have). If \<open>n\<close> is the name of one of these handlers, then
  after \<open>registerHandler(e, n)\<close> the handlers that \<open>getHandlers(category)\<close> shows
  holding \<open>e\<close> are exactly the one named \<open>n\<close>; after \<open>registerHandler(e, '')\<close> no
  handler of the category holds \<open>e\<close>.
\<close>

theorem registerHandler_exactly_one:
  assumes "map_of (handlers hm) (kind e) = Some hs"
    and "distinct (map constructor_name hs)"
  shows "(n \<in> set (map constructor_name hs) \<and> n \<noteq> '''' \<longrightarrow>
            map constructor_name
              (holders (getHandlers (registerHandler hm e n) (Some (kind e))) e) = [n]) \<and>
         holders (getHandlers (registerHandler hm e '''') (Some (kind e))) e = []"
proof -
  have g: "getHandlers hm (Some (kind e)) = hs"
    using assms(1) by (simp add: getHandlers_def)
  have after: "getHandlers (registerHandler hm e m) (Some (kind e)) = rebind e m hs" for m
    using assms(1)
    by (simp add: getHandlers_def handlers_registerHandler g map_of_put_handlers_same)
  have one: "map constructor_name (holders (rebind e n hs) e) = [n]"
    if "n \<in> set (map constructor_name hs)" and "n \<noteq> ''''"
    unfolding holders_def holders_rebind_self
    using filter_eq_distinct [OF assms(2) that(1)] that(2) by simp
  have "map constructor_name (holders (rebind e '''' hs) e) = []"
    unfolding holders_def holders_rebind_self by simp
  then have none: "holders (rebind e '''' hs) e = []" by simp
  show ?thesis using one none by (simp add: after)
qed

theorem registerHandler_exactly_one_witness:
  "map_of (handlers venue_manager) (kind stage_lights) =
     Some [\<lparr>constructor_name = ''RandomEffectsHandler'', entities = [stage_lights]\<rparr>,
           \<lparr>constructor_name = ''SetEffectsHandler'', entities = []\<rparr>,
           \<lparr>constructor_name = ''DevelopEffectsHandler'', entities = []\<rparr>] \<and>
   map constructor_name
     (holders (getHandlers venue_manager (Some LightsGroup)) stage_lights) =
     [''RandomEffectsHandler''] \<and>
   map constructor_name
     (holders (getHandlers (registerHandler venue_manager stage_lights ''SetEffectsHandler'')
        (Some (kind stage_lights))) stage_lights) = [''SetEffectsHandler''] \<and>
   holders (getHandlers (registerHandler venue_manager stage_lights '''')
        (Some (kind stage_lights))) stage_lights = []"
proof -
  have before: "map constructor_name
      (holders (getHandlers venue_manager (Some LightsGroup)) stage_lights) =
      [''RandomEffectsHandler'']"
    by (simp add: getHandlers_def venue_manager_def holders_def registered_def same_entity_def)
  show ?thesis
    using venue_lights_handlers before
      registerHandler_exactly_one [OF venue_lights_handlers, of "''SetEffectsHandler''"]
    by simp
qed

text \<open>
  Claim C2. The operations that change bindings keep every entity with at most one
  handler of its category: \<open>registerHandler\<close>, for any entity and any name, from any
  state in which the invariant holds; \<open>restoreHandlers\<close> for an entity and \<open>init\<close> for
  a database, from any such state in which no handler other than the one an entity's
  row names holds that entity; and so the boot restore, \<open>init\<close> on the freshly
  constructed manager, which also never throws. Rows have distinct primary keys. The
  connect and disconnect listeners change no binding, so they keep the invariant too.
\<close>

theorem at_most_one_handler_preserved:
  assumes "registry_ok (handlers hm)" and "at_most_one (handlers hm)"
  shows "at_most_one (handlers (registerHandler hm e n)) \<and>
         (bindings_agree (handlers hm) [r] \<and> map_of (handlers hm) (kind r) = Some hs \<longrightarrow>
            at_most_one (put_handlers (handlers hm) (kind r) (restoreHandlers r hs))) \<and>
         (pk_unique db \<and> bindings_agree (handlers hm) db \<and> init hm db em = Inr (hm', em') \<longrightarrow>
            at_most_one (handlers hm')) \<and>
         (pk_unique db \<longrightarrow>
            (\<exists>hm1 em1. init (HandlerManager_new srv) db em = Inr (hm1, em1) \<and>
               registry_ok (handlers hm1) \<and> at_most_one (handlers hm1))) \<and>
         at_most_one (handlers (fst (run_listener l user sid (hm, db))))"
proof -
  have reg: "at_most_one (handlers (registerHandler hm e n))"
    using assms by (rule registerHandler_at_most_one)
  have one: "at_most_one (put_handlers (handlers hm) (kind r) (restoreHandlers r hs))"
    if "bindings_agree (handlers hm) [r]" and "map_of (handlers hm) (kind r) = Some hs"
    using assms that(1) _ that(2) by (rule at_most_one_restore) simp
  have ini: "at_most_one (handlers hm')"
    if "pk_unique db" and "bindings_agree (handlers hm) db" and "init hm db em = Inr (hm', em')"
  proof -
    have "restore_inv db (handlers hm)" using assms that(2) by (simp add: restore_inv_def)
    from init_inv [OF this that(1,3)] show ?thesis by (simp add: restore_inv_def)
  qed
  have boot: "\<exists>hm1 em1. init (HandlerManager_new srv) db em = Inr (hm1, em1) \<and>
      registry_ok (handlers hm1) \<and> at_most_one (handlers hm1)" if pk: "pk_unique db"
  proof -
    have "\<not> initialized (HandlerManager_new srv)" by (simp add: HandlerManager_new_def)
    from init_returns [OF this, of db em] obtain hm1 em1 where
      i: "init (HandlerManager_new srv) db em = Inr (hm1, em1)" by blast
    from init_inv [OF restore_inv_new pk i] have "restore_inv db (handlers hm1)" .
    then show ?thesis using i by (auto simp: restore_inv_def)
  qed
  have lis: "at_most_one (handlers (fst (run_listener l user sid (hm, db))))"
    using assms(2) by (rule run_listener_at_most_one)
  show ?thesis using reg one ini boot lis by blast
qed

theorem at_most_one_handler_preserved_witness:
  "registry_ok (handlers venue_manager) \<and> at_most_one (handlers venue_manager) \<and>
   pk_unique venue_db \<and> bindings_agree (handlers venue_manager) venue_db \<and>
   bindings_agree (handlers venue_manager) [stage_lights] \<and>
   init (HandlerManager_new venue_server) venue_db [] = Inr (venue_manager, venue_emitter) \<and>
   at_most_one (handlers (registerHandler venue_manager stage_lights ''SetEffectsHandler'')) \<and>
   at_most_one (put_handlers (handlers venue_manager) (kind stage_lights)
     (restoreHandlers stage_lights
        [\<lparr>constructor_name = ''RandomEffectsHandler'', entities = [stage_lights]\<rparr>,
         \<lparr>constructor_name = ''SetEffectsHandler'', entities = []\<rparr>,
         \<lparr>constructor_name = ''DevelopEffectsHandler'', entities = []\<rparr>])) \<and>
   (\<exists>hm' em'. init venue_manager venue_db venue_emitter = Inr (hm', em') \<and>
      at_most_one (handlers hm')) \<and>
   at_most_one (handlers (fst (run_listener OnConnect \<lparr>user_name = ''stage''\<rparr> ''s1''
      (venue_manager, venue_db))))"
proof -
  have ok: "registry_ok (handlers venue_manager)"
    by (simp add: registry_ok_def venue_manager_def)
  have a: "at_most_one (handlers venue_manager)"
    by (simp add: at_most_one_def venue_manager_def holders_def registered_def same_entity_def
        stage_lights_def bar_audio_def)
  have pk: "pk_unique venue_db"
    by (simp add: pk_unique_def venue_db_def stage_lights_def bar_audio_def wall_screen_def)
  have ag: "bindings_agree (handlers venue_manager) venue_db"
    by (simp add: bindings_agree_def venue_manager_def venue_db_def registered_def
        same_entity_def stage_lights_def bar_audio_def wall_screen_def)
  have ag1: "bindings_agree (handlers venue_manager) [stage_lights]"
    by (simp add: bindings_agree_def venue_manager_def registered_def
        same_entity_def stage_lights_def bar_audio_def)
  have "\<not> initialized venue_manager" by (simp add: venue_manager_def)
  from init_returns [OF this, of venue_db venue_emitter] obtain hm' em' where
    again: "init venue_manager venue_db venue_emitter = Inr (hm', em')" by blast
  note inst = at_most_one_handler_preserved [OF ok a,
      where e = stage_lights and n = "''SetEffectsHandler''" and r = stage_lights
        and db = venue_db and em = venue_emitter and hm' = hm' and em' = em'
        and srv = venue_server and l = OnConnect and user = "\<lparr>user_name = ''stage''\<rparr>"
        and sid = "''s1''"]
  show ?thesis
    using ok a pk ag ag1 venue_boot venue_lights_handlers again inst by blast
qed

subsection \<open>Connectivity tracking\<close>

lemma in_matches_iff:
  "(hn, e) \<in> set (matches user reg) \<longleftrightarrow>
     name e = user_name user \<and>
     (\<exists>(c, hs) \<in> set reg. \<exists>h \<in> set hs. constructor_name h = hn \<and> e \<in> set (entities h))"
  by (auto simp: matches_def matches_handler_def)

lemma emit_after_init:
  assumes "init hm0 db0 [] = Inr (hm, em)"
  shows "emitter_emit em ''connect'' user sid w = run_body (connect_body user sid) w"
    and "emitter_emit em ''disconnect'' user sid w = run_body (disconnect_body user sid) w"
proof -
  have em: "em = [(''connect'', OnConnect), (''disconnect'', OnDisconnect)]"
    using init_Inr_D [OF assms] by simp
  show "emitter_emit em ''connect'' user sid w = run_body (connect_body user sid) w"
    by (simp add: em emitter_emit_def)
  show "emitter_emit em ''disconnect'' user sid w = run_body (disconnect_body user sid) w"
    by (simp add: em emitter_emit_def)
qed

lemma run_body_tracked:
  "tracked ev v user sid (hm, db) (run_body (notify_body ev v user sid) (hm, db))"
proof -
  let ?ms = "matches user (handlers hm)"
  let ?saved = "map (\<lambda>(hn, e). e\<lparr>socketId := v\<rparr>) ?ms"
  have aw: "after_walk ev v sid ?ms (io hm, db) =
      ((io hm)\<lparr>emitted := emitted (io hm) @
          (if sid \<in> sockets (io hm) then pushes sid ev ?ms else [])\<rparr>,
       foldl save db ?saved)"
    by (simp add: after_walk_def)
  have saved: "name x = user_name user \<and> socketId x = v" if "x \<in> set ?saved" for x
    using that by (auto simp: in_matches_iff)
  have hit: "\<exists>r. lookup_row (foldl save db ?saved) (kind e) (ident e) = Some r \<and>
      name r = user_name user \<and> (v \<noteq> None \<longrightarrow> socketId r = v)" if "(hn, e) \<in> set ?ms" for hn e
  proof -
    have mem: "e\<lparr>socketId := v\<rparr> \<in> set ?saved" using that by force
    have "\<exists>x \<in> set ?saved. kind x = kind e \<and> ident x = ident e"
      by (rule bexI [OF _ mem]) simp
    from lookup_row_foldl_save_hit [OF this] obtain x r where
      x: "x \<in> set ?saved" and r: "lookup_row (foldl save db ?saved) (kind e) (ident e) = Some r"
      and w: "written r x"
      by blast
    have "name r = user_name user \<and> (v \<noteq> None \<longrightarrow> socketId r = v)"
      using saved [OF x] w by (simp add: written_def)
    then show ?thesis using r by blast
  qed
  have miss: "lookup_row (foldl save db ?saved) c i = lookup_row db c i"
    if "\<forall>(hn, e) \<in> set ?ms. \<not> (kind e = c \<and> ident e = i)" for c i
  proof (rule lookup_row_foldl_save_other)
    show "\<forall>x \<in> set ?saved. \<not> (kind x = c \<and> ident x = i)" using that by auto
  qed
  show ?thesis
    unfolding tracked_def run_body_notify aw using hit miss by auto
qed

text \<open>
  Claim C5, as the code has it. After \<open>init\<close> (on an emitter without listeners), in
  whatever state \<open>(hm, db)\<close> the manager and the database then are, a connect event
  for \<open>(user, sid)\<close> sets the \<open>socketId\<close> of every registered entity named like the
  user to \<open>sid\<close> and saves it, so that its row holds \<open>sid\<close>; a disconnect event clears
  the \<open>socketId\<close> of these entities and saves them. Entities of another name, and the
  rows of other entities, are unaffected. The message (\<open>handler_set\<close> on connect,
  \<open>handler_remove\<close> on disconnect, each with the handler's name) is pushed to socket
  \<open>sid\<close> only when \<open>sid\<close> is in the server's table of live sockets; otherwise nothing
  is pushed.
\<close>

theorem connectivity_tracking:
  assumes "init hm0 db0 [] = Inr (hm1, em)"
  shows "tracked ''handler_set'' (Some sid) user sid (hm, db)
           (emitter_emit em ''connect'' user sid (hm, db)) \<and>
         tracked ''handler_remove'' None user sid (hm, db)
           (emitter_emit em ''disconnect'' user sid (hm, db))"
  unfolding emit_after_init [OF assms] connect_body_notify disconnect_body_notify
  using run_body_tracked by blast

theorem connectivity_tracking_witness:
  "init (HandlerManager_new venue_server) venue_db [] = Inr (venue_manager, venue_emitter) \<and>
   tracked ''handler_set'' (Some ''s1'') \<lparr>user_name = ''bar''\<rparr> ''s1'' (venue_manager, venue_db)
     (emitter_emit venue_emitter ''connect'' \<lparr>user_name = ''bar''\<rparr> ''s1''
        (venue_manager, venue_db)) \<and>
   tracked ''handler_remove'' None \<lparr>user_name = ''bar''\<rparr> ''s1'' (venue_manager, venue_db)
     (emitter_emit venue_emitter ''disconnect'' \<lparr>user_name = ''bar''\<rparr> ''s1''
        (venue_manager, venue_db)) \<and>
   matches \<lparr>user_name = ''bar''\<rparr> (handlers venue_manager) =
     [(''SimpleAudioHandler'', bar_audio)] \<and>
   socketId bar_audio = None \<and>
   emitted (io (fst (emitter_emit venue_emitter ''connect'' \<lparr>user_name = ''bar''\<rparr> ''s1''
        (venue_manager, venue_db)))) =
     [\<lparr>to_socket = ''s1'', event = ''handler_set'', payload = Some ''SimpleAudioHandler''\<rparr>] \<and>
   getHandlers (fst (emitter_emit venue_emitter ''connect'' \<lparr>user_name = ''bar''\<rparr> ''s1''
        (venue_manager, venue_db))) (Some Audio) =
     [\<lparr>constructor_name = ''SimpleAudioHandler'',
       entities = [bar_audio\<lparr>socketId := Some ''s1''\<rparr>]\<rparr>] \<and>
   lookup_row (snd (emitter_emit venue_emitter ''connect'' \<lparr>user_name = ''bar''\<rparr> ''s1''
        (venue_manager, venue_db))) Audio 1 = Some (bar_audio\<lparr>socketId := Some ''s1''\<rparr>)"
proof -
  let ?u = "\<lparr>user_name = ''bar''\<rparr>"
  let ?after = "emitter_emit venue_emitter ''connect'' ?u ''s1'' (venue_manager, venue_db)"
  have m: "matches ?u (handlers venue_manager) = [(''SimpleAudioHandler'', bar_audio)]"
    by (simp add: matches_def matches_handler_def venue_manager_def stage_lights_def
        bar_audio_def)
  have none: "socketId bar_audio = None" by (simp add: bar_audio_def)
  have live: "''s1'' \<in> sockets (io venue_manager)"
    by (simp add: venue_manager_def venue_server_def)
  have old: "emitted (io venue_manager) = []"
    by (simp add: venue_manager_def venue_server_def)
  note t = connectivity_tracking [OF venue_boot, of "''s1''" ?u venue_manager venue_db]
  obtain hm' db' where after: "?after = (hm', db')" by (cases ?after)
  have tr: "tracked ''handler_set'' (Some ''s1'') ?u ''s1'' (venue_manager, venue_db) (hm', db')"
    using t after by simp
  have e: "emitted (io hm') =
      [\<lparr>to_socket = ''s1'', event = ''handler_set'', payload = Some ''SimpleAudioHandler''\<rparr>]"
    using tr live old by (simp add: tracked_def m pushes_def)
  have h: "getHandlers hm' (Some Audio) =
      [\<lparr>constructor_name = ''SimpleAudioHandler'',
        entities = [bar_audio\<lparr>socketId := Some ''s1''\<rparr>]\<rparr>]"
    using tr
    by (simp add: tracked_def getHandlers_def map_entities_def touch_def venue_manager_def
        bar_audio_def stage_lights_def)
  have "lookup_row (snd ?after) Audio 1 = Some (bar_audio\<lparr>socketId := Some ''s1''\<rparr>)"
    by (simp add: emit_after_init [OF venue_boot] connect_body_notify run_body_notify m
        after_walk_def save_def same_row_def lookup_row_def venue_db_def stored_over_def
        stage_lights_def bar_audio_def)
  then have row: "lookup_row db' Audio 1 = Some (bar_audio\<lparr>socketId := Some ''s1''\<rparr>)"
    by (simp add: after)
  show ?thesis using venue_boot t m none e h row by (simp add: after)
qed

text \<open>
  The claim as stated fails in two ways. The message is not pushed when the socket of
  the event is not in the server's table: after the boot restore, with \<open>stage_lights\<close>
  registered with \<open>RandomEffectsHandler\<close>, a disconnect event for \<open>stage\<close> whose socket
  \<open>s1\<close> has left the table, and a connect event for \<open>stage\<close> with a socket \<open>s2\<close> that
  is not in it, push nothing. And a disconnect event does not clear the stored
  connection id: after the disconnect event for \<open>stage\<close> and \<open>s1\<close> the entity in the
  handler has no \<open>socketId\<close>, but its row still holds \<open>s1\<close>.
\<close>

theorem connectivity_tracking_counterexample:
  "init (HandlerManager_new venue_server) venue_db [] = Inr (venue_manager, venue_emitter) \<and>
   (''RandomEffectsHandler'', stage_lights) \<in>
      set (matches \<lparr>user_name = ''stage''\<rparr> (handlers venue_manager)) \<and>
   emitted (io (fst (emitter_emit venue_emitter ''disconnect'' \<lparr>user_name = ''stage''\<rparr> ''s1''
      (venue_manager\<lparr>io := \<lparr>sockets = {}, emitted = []\<rparr>\<rparr>, venue_db)))) = [] \<and>
   emitted (io (fst (emitter_emit venue_emitter ''connect'' \<lparr>user_name = ''stage''\<rparr> ''s2''
      (venue_manager, venue_db)))) = [] \<and>
   getHandlers (fst (emitter_emit venue_emitter ''disconnect'' \<lparr>user_name = ''stage''\<rparr> ''s1''
      (venue_manager, venue_db))) (Some LightsGroup) =
     [\<lparr>constructor_name = ''RandomEffectsHandler'',
       entities = [stage_lights\<lparr>socketId := None\<rparr>]\<rparr>,
      \<lparr>constructor_name = ''SetEffectsHandler'', entities = []\<rparr>,
      \<lparr>constructor_name = ''DevelopEffectsHandler'', entities = []\<rparr>] \<and>
   lookup_row (snd (emitter_emit venue_emitter ''disconnect'' \<lparr>user_name = ''stage''\<rparr> ''s1''
      (venue_manager, venue_db))) LightsGroup 1 = Some stage_lights \<and>
   socketId stage_lights = Some ''s1''"
proof -
  let ?u = "\<lparr>user_name = ''stage''\<rparr>"
  have m: "matches ?u (handlers venue_manager) = [(''RandomEffectsHandler'', stage_lights)]"
    by (simp add: matches_def matches_handler_def venue_manager_def stage_lights_def
        bar_audio_def)
  have d: "emitted (io (fst (emitter_emit venue_emitter ''disconnect'' ?u ''s1''
      (venue_manager\<lparr>io := \<lparr>sockets = {}, emitted = []\<rparr>\<rparr>, venue_db)))) = []"
    by (simp add: emit_after_init [OF venue_boot] disconnect_body_notify run_body_notify
        after_walk_def)
  have c: "emitted (io (fst (emitter_emit venue_emitter ''connect'' ?u ''s2''
      (venue_manager, venue_db)))) = []"
    by (simp add: emit_after_init [OF venue_boot] connect_body_notify run_body_notify
        after_walk_def venue_manager_def venue_server_def)
  have h: "getHandlers (fst (emitter_emit venue_emitter ''disconnect'' ?u ''s1''
      (venue_manager, venue_db))) (Some LightsGroup) =
     [\<lparr>constructor_name = ''RandomEffectsHandler'',
       entities = [stage_lights\<lparr>socketId := None\<rparr>]\<rparr>,
      \<lparr>constructor_name = ''SetEffectsHandler'', entities = []\<rparr>,
      \<lparr>constructor_name = ''DevelopEffectsHandler'', entities = []\<rparr>]"
    by (simp add: emit_after_init [OF venue_boot] disconnect_body_notify run_body_notify
        getHandlers_def map_entities_def touch_def venue_manager_def
        bar_audio_def stage_lights_def)
  have row: "lookup_row (snd (emitter_emit venue_emitter ''disconnect'' ?u ''s1''
      (venue_manager, venue_db))) LightsGroup 1 = Some stage_lights"
    by (simp add: emit_after_init [OF venue_boot] disconnect_body_notify run_body_notify m
        after_walk_def save_def same_row_def lookup_row_def venue_db_def stored_over_def
        stage_lights_def bar_audio_def)
  have s: "socketId stage_lights = Some ''s1''" by (simp add: stage_lights_def)
  show ?thesis using venue_boot m d c h row s by simp
qed

section \<open>Properties of the settings store\<close>

lemma initialize_sets_flag:
  "initialize st defaults = Inr st' \<Longrightarrow> store_initialized st'"
  by (auto simp: initialize_def Let_def split: if_splits sum.splits)

lemma initialize_twice_throws:
  assumes "initialize st defaults = Inr st'"
  shows "initialize st' defaults' = Inl (Error ''ServerSettingsStore already initialized!'')"
  using initialize_sets_flag [OF assms] by (simp add: initialize_def)

lemma collect_settings_total:
  "\<forall>k \<in> set ks. find (\<lambda>s. key s = k) found \<noteq> None \<Longrightarrow> \<exists>m'. collect_settings ks found m = Inr m'"
  by (induction ks arbitrary: m) auto

lemma initialize_first_returns:
  assumes "\<not> store_initialized st"
  shows "\<exists>st'. initialize st defaults = Inr st'"
proof -
  let ?found' = "repo st @ missing_defaults defaults (repo st)"
  have "find (\<lambda>s. key s = k) ?found' \<noteq> None" if "k \<in> set (map fst defaults)" for k
  proof (cases "find (\<lambda>s. key s = k) (repo st)")
    case (Some s)
    then show ?thesis by (simp add: find_append_case)
  next
    case None
    from that obtain v where "(k, v) \<in> set defaults" by auto
    then have "\<lparr>key = k, val = v\<rparr> \<in> set (missing_defaults defaults (repo st))"
      using None by (force simp: missing_defaults_def)
    then have "\<exists>s \<in> set ?found'. key s = k" by force
    then show ?thesis unfolding find_None_iff by blast
  qed
  then have "\<exists>m. collect_settings (map fst defaults) ?found' [] = Inr m"
    by (intro collect_settings_total) blast
  then show ?thesis using assms by (auto simp: initialize_def Let_def)
qed

section \<open>Initialising twice\<close>

text \<open>
  Claim C6 asks that a second initialisation raises an error. The settings store does
  (\<open>initialize_twice_throws\<close>). \<open>HandlerManager.init\<close> tests \<open>this.initialized\<close> and
  never sets it: on the freshly constructed manager, for any database, \<open>init\<close> returns,
  and \<open>init\<close> on the result returns again, leaving each listener registered twice.
\<close>

theorem HandlerManager_init_twice_returns:
  "\<exists>hm1 em1 hm2.
     init (HandlerManager_new srv) db [] = Inr (hm1, em1) \<and>
     init hm1 db' em1 =
       Inr (hm2, [(''connect'', OnConnect), (''disconnect'', OnDisconnect),
                  (''connect'', OnConnect), (''disconnect'', OnDisconnect)])"
proof -
  have "\<not> initialized (HandlerManager_new srv)" by (simp add: HandlerManager_new_def)
  from init_returns [OF this, of db "[]"] obtain hm1 em1 where
    one: "init (HandlerManager_new srv) db [] = Inr (hm1, em1)" by auto
  have flag: "\<not> initialized hm1"
    and em1: "em1 = [(''connect'', OnConnect), (''disconnect'', OnDisconnect)]"
    using init_Inr_D [OF one] by simp_all
  from init_returns [OF flag, of db' em1] obtain hm2 where
    "init hm1 db' em1 = Inr (hm2, em1 @ [(''connect'', OnConnect), (''disconnect'', OnDisconnect)])"
    by auto
  then show ?thesis using one em1 by auto
qed

section \<open>Properties of the tape scheduler\<close>

lemma due_count_le: "due_count fd e \<le> length fd"
  by (simp add: due_count_def length_takeWhile_le)

lemma due_count_before:
  "j < due_count fd e \<Longrightarrow> timestamp (fd ! j) \<le> e"
proof -
  assume j: "j < due_count fd e"
  then have "takeWhile (\<lambda>c. timestamp c \<le> e) fd ! j \<in> set (takeWhile (\<lambda>c. timestamp c \<le> e) fd)"
    by (simp add: due_count_def)
  then have "timestamp (takeWhile (\<lambda>c. timestamp c \<le> e) fd ! j) \<le> e"
    by (rule set_takeWhileD [THEN conjunct2])
  then show ?thesis using j by (simp add: due_count_def takeWhile_nth)
qed

lemma due_count_at:
  "due_count fd e < length fd \<Longrightarrow> e < timestamp (fd ! due_count fd e)"
  using nth_length_takeWhile [of "\<lambda>c. timestamp c \<le> e" fd]
  by (simp add: due_count_def not_le)

lemma due_count_sorted_iff:
  "sorted (map timestamp fd) \<Longrightarrow> j < length fd \<Longrightarrow>
   (j < due_count fd e \<longleftrightarrow> timestamp (fd ! j) \<le> e)"
proof (induction fd arbitrary: j)
  case Nil
  then show ?case by simp
next
  case (Cons c cs)
  show ?case
  proof (cases j)
    case 0
    then show ?thesis by (simp add: due_count_def)
  next
    case (Suc i)
    have i: "i < length cs" using Cons.prems(2) Suc by simp
    have sorted_cs: "sorted (map timestamp cs)" using Cons.prems(1) by simp
    have le: "timestamp c \<le> timestamp (cs ! i)" using Cons.prems(1) i by simp
    show ?thesis
    proof (cases "timestamp c \<le> e")
      case True
      then show ?thesis
        using Cons.IH [OF sorted_cs i] Suc by (simp add: due_count_def)
    next
      case False
      then show ?thesis using le Suc by (simp add: due_count_def)
    qed
  qed
qed

lemma due_count_drop_sorted:
  "sorted (map timestamp fd) \<Longrightarrow>
   idx + length (takeWhile (\<lambda>c. timestamp c \<le> e) (drop idx fd)) = max idx (due_count fd e)"
proof (induction fd arbitrary: idx)
  case Nil
  then show ?case by (simp add: due_count_def)
next
  case (Cons c cs)
  show ?case
  proof (cases idx)
    case 0
    then show ?thesis by (simp add: due_count_def)
  next
    case (Suc i)
    have sorted_cs: "sorted (map timestamp cs)" using Cons.prems by simp
    show ?thesis
    proof (cases "timestamp c \<le> e")
      case True
      then show ?thesis
        using Cons.IH [OF sorted_cs, of i] Suc by (simp add: due_count_def)
    next
      case False
      have "\<forall>x \<in> set cs. \<not> timestamp x \<le> e" using Cons.prems False by auto
      then have "takeWhile (\<lambda>c. timestamp c \<le> e) cs = []"
        by (cases cs) auto
      then have "due_count cs e = 0" by (simp add: due_count_def)
      then show ?thesis
        using Cons.IH [OF sorted_cs, of i] Suc False by (simp add: due_count_def)
    qed
  qed
qed

lemma run_idx_ge: "idx \<le> run_idx fd idx es"
proof (induction es arbitrary: idx)
  case Nil
  then show ?case by simp
next
  case (Cons e es)
  have "idx \<le> max idx (due_count fd e)" by simp
  also have "\<dots> \<le> run_idx fd (max idx (due_count fd e)) es" by (rule Cons.IH)
  finally show ?case by simp
qed

lemma run_idx_less_iff:
  "j < run_idx fd idx es \<longleftrightarrow> j < idx \<or> (\<exists>e \<in> set es. j < due_count fd e)"
  by (induction es arbitrary: idx) auto

lemma upt_append_upt: "a \<le> b \<Longrightarrow> b \<le> c \<Longrightarrow> [a ..< b] @ [b ..< c] = [a ..< (c::nat)]"
  by (metis le_Suc_ex upt_add_eq_append)

lemma snd_run_log: "map snd (run_log fd idx es) = [idx ..< run_idx fd idx es]"
proof (induction es arbitrary: idx)
  case Nil
  then show ?case by simp
next
  case (Cons e es)
  have "map snd (run_log fd idx (e # es)) =
      [idx ..< max idx (due_count fd e)] @
      [max idx (due_count fd e) ..< run_idx fd (max idx (due_count fd e)) es]"
    by (simp add: Cons.IH comp_def)
  also have "\<dots> = [idx ..< run_idx fd (max idx (due_count fd e)) es]"
    by (rule upt_append_upt) (simp_all add: run_idx_ge)
  finally show ?case by simp
qed

lemma run_log_first_tick:
  assumes "sorted (map timestamp fd)" and "idx \<le> length fd"
    and "(e, j) \<in> set (run_log fd idx es)"
  shows "find (\<lambda>e'. timestamp (fd ! j) \<le> e') es = Some e"
  using assms(2,3)
proof (induction es arbitrary: idx)
  case Nil
  then show ?case by simp
next
  case (Cons e1 es)
  let ?idx1 = "max idx (due_count fd e1)"
  have idx1: "?idx1 \<le> length fd" using Cons.prems(1) by (simp add: due_count_le)
  from Cons.prems(2) consider
    (now) "e = e1" "idx \<le> j" "j < ?idx1" | (later) "(e, j) \<in> set (run_log fd ?idx1 es)"
    by auto
  then show ?case
  proof cases
    case now
    then have "j < due_count fd e1" by simp
    then have "timestamp (fd ! j) \<le> e1" by (rule due_count_before)
    then show ?thesis using now(1) by simp
  next
    case later
    then have "j \<in> set (map snd (run_log fd ?idx1 es))" by force
    then have j: "?idx1 \<le> j" "j < run_idx fd ?idx1 es" by (simp_all add: snd_run_log)
    have "j < length fd"
    proof -
      have "j < ?idx1 \<or> (\<exists>e \<in> set es. j < due_count fd e)"
        using j(2) by (simp only: run_idx_less_iff)
      then show ?thesis using idx1 due_count_le [of fd] by (auto intro: less_le_trans)
    qed
    moreover have "\<not> j < due_count fd e1" using j(1) by simp
    ultimately have "\<not> timestamp (fd ! j) \<le> e1"
      using due_count_sorted_iff [OF assms(1), of j e1] by simp
    then show ?thesis using Cons.IH [OF idx1 later] by simp
  qed
qed

lemma length_filter_upt:
  "length (filter (\<lambda>i. i = j) [a ..< b]) = (if a \<le> j \<and> j < b then 1 else 0)"
  by (induction b) auto

lemma tick_sorted:
  assumes "playing m" and "sorted (map timestamp (cues m))"
  shows "tick m e =
           m\<lparr>elapsed := e,
             nextCue := max (nextCue m) (due_count (cues m) e),
             dispatched := dispatched m @
               map (\<lambda>j. (e, j)) [nextCue m ..< max (nextCue m) (due_count (cues m) e)]\<rparr>"
  using assms(1) due_count_drop_sorted [OF assms(2), of "nextCue m" e]
  by (simp add: tick_def Let_def)

lemma ticks_sorted:
  assumes "playing m" and "sorted (map timestamp (cues m))"
  shows "dispatched (foldl tick m es) = dispatched m @ run_log (cues m) (nextCue m) es \<and>
         nextCue (foldl tick m es) = run_idx (cues m) (nextCue m) es \<and>
         cues (foldl tick m es) = cues m \<and> playing (foldl tick m es)"
  using assms
proof (induction es arbitrary: m)
  case Nil
  then show ?case by simp
next
  case (Cons e es)
  let ?m1 = "tick m e"
  have t: "?m1 = m\<lparr>elapsed := e,
             nextCue := max (nextCue m) (due_count (cues m) e),
             dispatched := dispatched m @
               map (\<lambda>j. (e, j)) [nextCue m ..< max (nextCue m) (due_count (cues m) e)]\<rparr>"
    using Cons.prems by (rule tick_sorted)
  have c: "cues ?m1 = cues m" and p: "playing ?m1"
    and n: "nextCue ?m1 = max (nextCue m) (due_count (cues m) e)"
    and d: "dispatched ?m1 = dispatched m @
               map (\<lambda>j. (e, j)) [nextCue m ..< max (nextCue m) (due_count (cues m) e)]"
    using Cons.prems(1) by (simp_all add: t cues_def)
  have s: "sorted (map timestamp (cues ?m1))" using Cons.prems(2) by (simp only: c)
  from Cons.IH [OF p s] show ?case by (simp add: c n d)
qed

text \<open>
  Claim C9. For a mode that is playing a loaded tape whose timestamps do not decrease
  (the invariant of \<open>MixTape\<close>), and every number \<open>s\<close>: \<open>skip(s)\<close> sets the elapsed time
  to \<open>s\<close> clamped to \<open>\<ge> 0\<close> and the next-cue index to the index of the first cue with
  timestamp \<open>> s\<close>, and dispatches nothing itself. In the ticks that follow, at any
  elapsed times \<open>es\<close>, a cue with timestamp \<open>\<le> s\<close> is never dispatched; a cue with
  timestamp \<open>> s\<close> is dispatched once if some tick reaches its timestamp and not at all
  otherwise, and the tick that dispatches it is the first one that reaches it.
\<close>

theorem skip_then_ticks:
  assumes "tape m = Some t" and "sorted (map timestamp (feed t))" and "playing m"
  shows "elapsed (skip m s) = max s 0 \<and>
         nextCue (skip m s) \<le> length (feed t) \<and>
         (\<forall>j < nextCue (skip m s). timestamp (feed t ! j) \<le> s) \<and>
         (nextCue (skip m s) < length (feed t) \<longrightarrow> s < timestamp (feed t ! nextCue (skip m s))) \<and>
         dispatched (skip m s) = dispatched m \<and>
         (\<exists>new. dispatched (foldl tick (skip m s) es) = dispatched m @ new \<and>
            (\<forall>j < length (feed t).
               (timestamp (feed t ! j) \<le> s \<longrightarrow> (\<forall>e. (e, j) \<notin> set new)) \<and>
               (s < timestamp (feed t ! j) \<longrightarrow>
                  length (filter (\<lambda>p. snd p = j) new) =
                    (if \<exists>e \<in> set es. timestamp (feed t ! j) \<le> e then 1 else 0) \<and>
                  (\<forall>e. (e, j) \<in> set new \<longrightarrow>
                     find (\<lambda>e'. timestamp (feed t ! j) \<le> e') es = Some e))))"
proof -
  let ?fd = "feed t"
  let ?m1 = "skip m s"
  let ?idx = "due_count ?fd s"
  let ?new = "run_log ?fd ?idx es"
  have c: "cues m = ?fd" using assms(1) by (simp add: cues_def)
  have c1: "cues ?m1 = ?fd" using assms(1) by (simp add: cues_def skip_def)
  have n1: "nextCue ?m1 = ?idx" by (simp add: skip_def c due_count_def)
  have p1: "playing ?m1" using assms(3) by (simp add: skip_def)
  have d1: "dispatched ?m1 = dispatched m" by (simp add: skip_def)
  have s1: "sorted (map timestamp (cues ?m1))" using assms(2) by (simp only: c1)
  have el: "elapsed ?m1 = max s 0" by (simp add: skip_def)
  have bound: "?idx \<le> length ?fd" by (rule due_count_le)
  have before: "\<forall>j < ?idx. timestamp (?fd ! j) \<le> s" using due_count_before by blast
  have at: "?idx < length ?fd \<longrightarrow> s < timestamp (?fd ! ?idx)" using due_count_at by blast
  have log: "dispatched (foldl tick ?m1 es) = dispatched m @ ?new"
    using ticks_sorted [OF p1 s1, of es] by (simp add: c1 n1 d1)
  have snds: "map snd ?new = [?idx ..< run_idx ?fd ?idx es]" by (rule snd_run_log)
  have count: "length (filter (\<lambda>p. snd p = j) ?new) =
      (if ?idx \<le> j \<and> j < run_idx ?fd ?idx es then 1 else 0)" for j
  proof -
    have "length (filter (\<lambda>p. snd p = j) ?new) = length (filter (\<lambda>i. i = j) (map snd ?new))"
      by (simp add: filter_map comp_def)
    then show ?thesis by (simp only: snds length_filter_upt)
  qed
  have old: "(e, j) \<notin> set ?new" if "j < length ?fd" and "timestamp (?fd ! j) \<le> s" for j e
  proof
    assume "(e, j) \<in> set ?new"
    then have "j \<in> set (map snd ?new)" by force
    then have "?idx \<le> j" by (simp add: snds)
    then have "\<not> j < ?idx" by simp
    then show False using due_count_sorted_iff [OF assms(2) that(1), of s] that(2) by simp
  qed
  have once: "length (filter (\<lambda>p. snd p = j) ?new) =
      (if \<exists>e \<in> set es. timestamp (?fd ! j) \<le> e then 1 else 0)"
    if "j < length ?fd" and "s < timestamp (?fd ! j)" for j
  proof -
    have "\<not> j < ?idx" using due_count_sorted_iff [OF assms(2) that(1), of s] that(2) by simp
    moreover have "(\<exists>e \<in> set es. j < due_count ?fd e) = (\<exists>e \<in> set es. timestamp (?fd ! j) \<le> e)"
      using due_count_sorted_iff [OF assms(2) that(1)] by simp
    ultimately show ?thesis by (simp add: count run_idx_less_iff)
  qed
  have first: "find (\<lambda>e'. timestamp (?fd ! j) \<le> e') es = Some e" if "(e, j) \<in> set ?new" for j e
    using assms(2) bound that by (rule run_log_first_tick)
  have ticks: "\<exists>new. dispatched (foldl tick ?m1 es) = dispatched m @ new \<and>
      (\<forall>j < length ?fd.
         (timestamp (?fd ! j) \<le> s \<longrightarrow> (\<forall>e. (e, j) \<notin> set new)) \<and>
         (s < timestamp (?fd ! j) \<longrightarrow>
            length (filter (\<lambda>p. snd p = j) new) =
              (if \<exists>e \<in> set es. timestamp (?fd ! j) \<le> e then 1 else 0) \<and>
            (\<forall>e. (e, j) \<in> set new \<longrightarrow>
               find (\<lambda>e'. timestamp (?fd ! j) \<le> e') es = Some e)))"
    using log old once first by blast
  show ?thesis
    using el bound before at d1 ticks unfolding n1 by blast
qed

lemma scenario_mode_eq:
  "scenario_mode =
     \<lparr>lights = [], screens = [], audios = [], initialised_with_emitter = True,
      tape = Some scenario_tape, ready = True, playing = True, startTime = Some 0,
      elapsed = 0, nextCue = 0, dispatched = []\<rparr>"
  by (simp add: scenario_mode_def start_def loadTape_def initialize_mode_def
      CenturionMode_new_def)

lemma scenario_run:
  "foldl tick (skip (tick scenario_mode 1) 6) [6, 8, 21 / 2, 11] =
     scenario_mode\<lparr>elapsed := 11, nextCue := 3, dispatched := [(1, 0), (21 / 2, 2)]\<rparr>"
  by (simp add: scenario_mode_eq tick_def skip_def cues_def scenario_tape_def Let_def)

theorem skip_then_ticks_witness:
  "tape (tick scenario_mode 1) = Some scenario_tape \<and>
   sorted (map timestamp (feed scenario_tape)) \<and> playing (tick scenario_mode 1) \<and>
   dispatched (tick scenario_mode 1) = [(1, 0)] \<and>
   elapsed (skip (tick scenario_mode 1) 6) = 6 \<and>
   nextCue (skip (tick scenario_mode 1) 6) = 2 \<and>
   dispatched (foldl tick (skip (tick scenario_mode 1) 6) [6, 8, 21 / 2, 11]) =
     [(1, 0)] @ [(21 / 2, 2)] \<and>
   length (filter (\<lambda>p. snd p = 2) [(21 / 2 :: real, 2 :: nat)]) = 1 \<and>
   find (\<lambda>e'. timestamp (feed scenario_tape ! 2) \<le> e') [6, 8, 21 / 2, 11] = Some (21 / 2)"
proof -
  let ?m = "tick scenario_mode 1"
  have m: "?m = scenario_mode\<lparr>elapsed := 1, nextCue := 1, dispatched := [(1, 0)]\<rparr>"
    by (simp add: scenario_mode_eq tick_def cues_def scenario_tape_def Let_def)
  have a: "tape ?m = Some scenario_tape" unfolding m by (simp add: scenario_mode_eq)
  have b: "sorted (map timestamp (feed scenario_tape))" by (simp add: scenario_tape_def)
  have c: "playing ?m" unfolding m by (simp add: scenario_mode_eq)
  have d: "dispatched ?m = [(1, 0)]" unfolding m by simp
  have n: "nextCue (skip ?m 6) = 2"
    unfolding m by (simp add: skip_def cues_def scenario_mode_eq scenario_tape_def)
  have f: "find (\<lambda>e'. timestamp (feed scenario_tape ! 2) \<le> e') [6, 8, 21 / 2, 11] =
      Some (21 / 2 :: real)"
    by (simp add: scenario_tape_def)
  from skip_then_ticks [OF a b c, of 6 "[6, 8, 21 / 2, 11]"]
  have "elapsed (skip ?m 6) = max 6 0" by blast
  then show ?thesis using a b c d n f scenario_run by simp
qed

section \<open>Properties of the controllers\<close>

lemma put_mode_same:
  "getMode mm c = Some i \<Longrightarrow> put_mode mm c i = mm"
proof (induction mm)
  case Nil
  then show ?case by (simp add: getMode_def)
next
  case (Cons slot mm)
  obtain k stored old where slot: "slot = (k, (stored, old))" by (cases slot) auto
  show ?case
  proof (cases "stored = c")
    case True
    then show ?thesis using Cons.prems by (simp add: slot getMode_def)
  next
    case False
    then have "getMode mm c = Some i" using Cons.prems by (simp add: slot getMode_def)
    then show ?thesis using False Cons.IH by (simp add: slot)
  qed
qed

text \<open>
  Claim C7. When no Centurion instance is enabled, \<open>getCenturion\<close>, \<open>startCenturion\<close>,
  \<open>skipCenturion\<close> and \<open>stopCenturion\<close> each throw \<open>ModeDisabledError('Centurion not
  enabled')\<close>, before the audit line, and leave the mode manager as it was. When the
  instance is enabled and \<open>mode.start()\<close> reports not ready, \<open>startCenturion\<close> returns
  (it does not throw) the try-again text with status 428; the instance in the manager
  is as \<open>start\<close> left it.
\<close>

theorem centurion_disabled_or_not_ready:
  "(getMode mm CenturionModeClass = None \<longrightarrow>
      getCenturion mm =
        \<lparr>outcome = Inl (ModeDisabledError ''Centurion not enabled''), status = None,
         manager = mm, audited = []\<rparr> \<and>
      startCenturion mm now =
        \<lparr>outcome = Inl (ModeDisabledError ''Centurion not enabled''), status = None,
         manager = mm, audited = []\<rparr> \<and>
      skipCenturion mm seconds =
        \<lparr>outcome = Inl (ModeDisabledError ''Centurion not enabled''), status = None,
         manager = mm, audited = []\<rparr> \<and>
      stopCenturion mm =
        \<lparr>outcome = Inl (ModeDisabledError ''Centurion not enabled''), status = None,
         manager = mm, audited = []\<rparr>) \<and>
   (getMode mm CenturionModeClass = Some (CenturionModeOf m) \<and> fst (start m now) = False \<longrightarrow>
      startCenturion mm now =
        \<lparr>outcome = Inr ''Centurion not yet fully initialized. Please wait and try again later'',
         status = Some 428,
         manager = put_mode mm CenturionModeClass (CenturionModeOf (snd (start m now))),
         audited = [''Start Centurion.'']\<rparr>)"
proof -
  have off: "getCenturion mm =
        \<lparr>outcome = Inl (ModeDisabledError ''Centurion not enabled''), status = None,
         manager = mm, audited = []\<rparr> \<and>
      startCenturion mm now =
        \<lparr>outcome = Inl (ModeDisabledError ''Centurion not enabled''), status = None,
         manager = mm, audited = []\<rparr> \<and>
      skipCenturion mm seconds =
        \<lparr>outcome = Inl (ModeDisabledError ''Centurion not enabled''), status = None,
         manager = mm, audited = []\<rparr> \<and>
      stopCenturion mm =
        \<lparr>outcome = Inl (ModeDisabledError ''Centurion not enabled''), status = None,
         manager = mm, audited = []\<rparr>"
    if "getMode mm CenturionModeClass = None"
    using that
    by (simp add: getCenturion_def startCenturion_def skipCenturion_def stopCenturion_def)
  have wait: "startCenturion mm now =
        \<lparr>outcome = Inr ''Centurion not yet fully initialized. Please wait and try again later'',
         status = Some 428,
         manager = put_mode mm CenturionModeClass (CenturionModeOf (snd (start m now))),
         audited = [''Start Centurion.'']\<rparr>"
    if g: "getMode mm CenturionModeClass = Some (CenturionModeOf m)"
      and f: "fst (start m now) = False"
  proof -
    obtain m' where "start m now = (False, m')" using f by (cases "start m now") simp
    then show ?thesis using g by (simp add: startCenturion_def)
  qed
  show ?thesis using off wait by blast
qed

theorem centurion_disabled_or_not_ready_witness:
  "getMode [] CenturionModeClass = None \<and>
   outcome (getCenturion []) = Inl (ModeDisabledError ''Centurion not enabled'') \<and>
   outcome (startCenturion [] 0) = Inl (ModeDisabledError ''Centurion not enabled'') \<and>
   outcome (skipCenturion [] 6) = Inl (ModeDisabledError ''Centurion not enabled'') \<and>
   outcome (stopCenturion []) = Inl (ModeDisabledError ''Centurion not enabled'') \<and>
   getMode waiting_manager CenturionModeClass =
     Some (CenturionModeOf (loadTape (initialize_mode (CenturionMode_new [] [] [])) scenario_tape)) \<and>
   fst (start (loadTape (initialize_mode (CenturionMode_new [] [] [])) scenario_tape) 0) = False \<and>
   outcome (startCenturion waiting_manager 0) =
     Inr ''Centurion not yet fully initialized. Please wait and try again later'' \<and>
   status (startCenturion waiting_manager 0) = Some 428 \<and>
   manager (startCenturion waiting_manager 0) = waiting_manager"
proof -
  let ?m = "loadTape (initialize_mode (CenturionMode_new [] [] [])) scenario_tape"
  have none: "getMode [] CenturionModeClass = None" by (simp add: getMode_def)
  have some: "getMode waiting_manager CenturionModeClass = Some (CenturionModeOf ?m)"
    by (simp add: waiting_manager_def enableMode_def map_set_def getMode_def)
  have st: "start ?m 0 = (False, ?m)"
    by (simp add: start_def loadTape_def initialize_mode_def CenturionMode_new_def)
  have same: "put_mode waiting_manager CenturionModeClass (CenturionModeOf ?m) = waiting_manager"
    using some by (rule put_mode_same)
  show ?thesis
    using none some st same
      centurion_disabled_or_not_ready [of "[]" 0 6 ?m]
      centurion_disabled_or_not_ready [of waiting_manager 0 6 ?m]
    by simp
qed

text \<open>
  Claim C8. When no tape has the requested name, \<open>enableCenturion\<close> returns the text
  "Centurion tape not found." with status 404 and does not call \<open>enableMode\<close>: the mode
  manager is as before, so the slot \<open>centurion\<close> and what \<open>getMode\<close> finds are unchanged.
\<close>

theorem enableCenturion_unknown_tape:
  assumes "find (\<lambda>t. tape_name t = centurionName params) tapes = None"
  shows "outcome (enableCenturion tapes db mm params) = Inr ''Centurion tape not found.'' \<and>
         status (enableCenturion tapes db mm params) = Some 404 \<and>
         manager (enableCenturion tapes db mm params) = mm \<and>
         map_of (manager (enableCenturion tapes db mm params)) ''centurion'' =
           map_of mm ''centurion'' \<and>
         getMode (manager (enableCenturion tapes db mm params)) CenturionModeClass =
           getMode mm CenturionModeClass"
  using assms by (simp add: enableCenturion_def Let_def split: prod.splits)

theorem enableCenturion_unknown_tape_witness:
  "find (\<lambda>t. tape_name t = centurionName unknown_tape_request) [scenario_tape] = None \<and>
   outcome (enableCenturion [scenario_tape] venue_db [] unknown_tape_request) =
     Inr ''Centurion tape not found.'' \<and>
   status (enableCenturion [scenario_tape] venue_db [] unknown_tape_request) = Some 404 \<and>
   manager (enableCenturion [scenario_tape] venue_db [] unknown_tape_request) = [] \<and>
   getMode (manager (enableCenturion [scenario_tape] venue_db []
     (unknown_tape_request\<lparr>centurionName := ''scenario''\<rparr>))) CenturionModeClass \<noteq> None"
proof -
  have h: "find (\<lambda>t. tape_name t = centurionName unknown_tape_request) [scenario_tape] = None"
    by (simp add: unknown_tape_request_def scenario_tape_def)
  have ok: "getMode (manager (enableCenturion [scenario_tape] venue_db []
     (unknown_tape_request\<lparr>centurionName := ''scenario''\<rparr>))) CenturionModeClass \<noteq> None"
    by (simp add: enableCenturion_def unknown_tape_request_def scenario_tape_def Let_def
        enableMode_def map_set_def getMode_def split: prod.splits)
  show ?thesis
    using h ok enableCenturion_unknown_tape [OF h, of venue_db "[]"] by simp
qed

text \<open>
  Claim C10 asks that the screens are resolved from \<open>screenIds\<close> and the audios from
  \<open>audioIds\<close>. \<open>mapBodyToEntities\<close> passes \<open>params.lightsGroupIds\<close> to all three
  lookups, so \<open>screenIds\<close> and \<open>audioIds\<close> are never read: with the lights group 1, the
  screens 1 and 2 and the audios 1 and 3 in the database, the request for lights
  group 1, screen 2 and audio 3 yields screen 1 and audio 1, and these are what the
  mode enabled by \<open>enableCenturion\<close> holds.
\<close>

theorem mapBodyToEntities_reads_lightsGroupIds_only:
  "mapBodyToEntities db params =
     mapBodyToEntities db (params\<lparr>screenIds := xs, audioIds := ys\<rparr>) \<and>
   mapBodyToEntities hall_db \<lparr>lightsGroupIds = [1], screenIds = [2], audioIds = [3]\<rparr> =
     ([stage_lights], [wall_screen], [bar_audio]) \<and>
   findEntities hall_db Screen [2] =
     [\<lparr>kind = Screen, ident = 2, name = ''hall'', currentHandler = '''', socketId = None\<rparr>] \<and>
   findEntities hall_db Audio [3] =
     [\<lparr>kind = Audio, ident = 3, name = ''hall'', currentHandler = '''', socketId = None\<rparr>] \<and>
   getMode (manager (enableCenturion [scenario_tape] hall_db []
       \<lparr>lightsGroupIds = [1], screenIds = [2], audioIds = [3], centurionName = ''scenario''\<rparr>))
     CenturionModeClass =
     Some (CenturionModeOf
       (loadTape (initialize_mode (CenturionMode_new [stage_lights] [wall_screen] [bar_audio]))
          scenario_tape))"
proof -
  have a: "mapBodyToEntities db params =
      mapBodyToEntities db (params\<lparr>screenIds := xs, audioIds := ys\<rparr>)"
    by (simp add: mapBodyToEntities_def)
  have b: "mapBodyToEntities hall_db \<lparr>lightsGroupIds = [1], screenIds = [2], audioIds = [3]\<rparr> =
      ([stage_lights], [wall_screen], [bar_audio])"
    by (simp add: mapBodyToEntities_def findEntities_def hall_db_def venue_db_def
        stage_lights_def bar_audio_def wall_screen_def)
  have b': "mapBodyToEntities hall_db
      \<lparr>lightsGroupIds = [1], screenIds = [2], audioIds = [3], centurionName = ''scenario''\<rparr> =
      ([stage_lights], [wall_screen], [bar_audio])"
    by (simp add: mapBodyToEntities_def findEntities_def hall_db_def venue_db_def
        stage_lights_def bar_audio_def wall_screen_def)
  have c: "findEntities hall_db Screen [2] =
      [\<lparr>kind = Screen, ident = 2, name = ''hall'', currentHandler = '''', socketId = None\<rparr>]"
    by (simp add: findEntities_def hall_db_def venue_db_def
        stage_lights_def bar_audio_def wall_screen_def)
  have d: "findEntities hall_db Audio [3] =
      [\<lparr>kind = Audio, ident = 3, name = ''hall'', currentHandler = '''', socketId = None\<rparr>]"
    by (simp add: findEntities_def hall_db_def venue_db_def
        stage_lights_def bar_audio_def wall_screen_def)
  have e: "getMode (manager (enableCenturion [scenario_tape] hall_db []
       \<lparr>lightsGroupIds = [1], screenIds = [2], audioIds = [3], centurionName = ''scenario''\<rparr>))
     CenturionModeClass =
     Some (CenturionModeOf
       (loadTape (initialize_mode (CenturionMode_new [stage_lights] [wall_screen] [bar_audio]))
          scenario_tape))"
    unfolding enableCenturion_def Let_def b'
    by (simp add: scenario_tape_def enableMode_def map_set_def getMode_def)
  show ?thesis using a b c d e by simp
qed

end
